theory Spec2Isabelle
  imports Complex_Main "HOL-Library.Log_Nat"
begin

section \<open>JavaScript strings and numbers used by the grid code\<close>

text \<open>
  Strings are modelled as \<open>string\<close> (lists of 8-bit characters); the ids, slugs and colour
  constants of the repository are ASCII. Integer-valued JavaScript numbers that come out of
  \<open>parseInt\<close> are modelled as \<open>int option\<close>, with \<open>None\<close> standing for \<open>NaN\<close>; the
  embedding is exact for magnitudes below \<open>2^53\<close>.
\<close>

text \<open>\<open>String.prototype.split(sep)\<close> for a one-character separator.\<close>

fun js_split :: "char \<Rightarrow> string \<Rightarrow> string list" where
  "js_split sep [] = [[]]"
| "js_split sep (c # cs) =
     (if c = sep then [] # js_split sep cs
      else (case js_split sep cs of [] \<Rightarrow> [[c]] | p # ps \<Rightarrow> (c # p) # ps))"

definition isWhiteSpace :: "char \<Rightarrow> bool" where
  "isWhiteSpace c \<longleftrightarrow> c \<in> set [CHR 0x09, CHR 0x0A, CHR 0x0B, CHR 0x0C, CHR 0x0D, CHR 0x20]"

text \<open>Value of a character as a digit in radices up to 36, as \<open>parseInt\<close> reads it.\<close>

definition charVal :: "char \<Rightarrow> nat option" where
  "charVal c =
     (let n = (of_char c :: nat) in
      if 48 \<le> n \<and> n \<le> 57 then Some (n - 48)
      else if 97 \<le> n \<and> n \<le> 122 then Some (n - 87)
      else if 65 \<le> n \<and> n \<le> 90 then Some (n - 55)
      else None)"

definition isRadixDigit :: "nat \<Rightarrow> char \<Rightarrow> bool" where
  "isRadixDigit R c = (case charVal c of None \<Rightarrow> False | Some v \<Rightarrow> v < R)"

definition radixValue :: "nat \<Rightarrow> string \<Rightarrow> nat" where
  "radixValue R ds = foldl (\<lambda>a c. a * R + (case charVal c of None \<Rightarrow> 0 | Some v \<Rightarrow> v)) 0 ds"

text \<open>
  \<open>parseInt(string, radix)\<close> of ECMAScript: leading white space is skipped, one sign is
  read, a \<open>0x\<close>/\<open>0X\<close> prefix switches to radix 16 (when the radix is absent or 16), the
  longest prefix of digits is converted, and an empty prefix gives \<open>NaN\<close>.
\<close>

definition parseIntCore :: "nat \<Rightarrow> string \<Rightarrow> int option" where
  "parseIntCore R s =
     (let s1 = dropWhile isWhiteSpace s;
          neg = (take 1 s1 = ''-'');
          s2 = (if take 1 s1 = ''-'' \<or> take 1 s1 = ''+'' then drop 1 s1 else s1);
          hex = (take 2 s2 = ''0x'' \<or> take 2 s2 = ''0X'');
          R' = (if hex then 16 else R);
          s3 = (if hex then drop 2 s2 else s2);
          z = takeWhile (isRadixDigit R') s3
      in if z = [] then None
         else Some ((if neg then - 1 else 1) * int (radixValue R' z)))"

definition parseInt :: "string \<Rightarrow> int option" where
  "parseInt s = parseIntCore 10 s"

definition digitChar :: "nat \<Rightarrow> char" where
  "digitChar d = ''0123456789abcdefghijklmnopqrstuvwxyz'' ! (d mod 36)"

text \<open>Digits of a natural number in radix \<open>R\<close> (\<open>Number.prototype.toString(R)\<close>).\<close>

fun digitsOf :: "nat \<Rightarrow> nat \<Rightarrow> string" where
  "digitsOf R n =
     (if R < 2 \<or> n < R then [digitChar n]
      else digitsOf R (n div R) @ [digitChar (n mod R)])"

declare digitsOf.simps [simp del]

definition intToString :: "nat \<Rightarrow> int \<Rightarrow> string" where
  "intToString R n = (if n < 0 then CHR ''-'' # digitsOf R (nat (- n)) else digitsOf R (nat n))"

text \<open>A number inside a template literal: \<open>NaN\<close> prints as the text NaN.\<close>

definition numToString :: "int option \<Rightarrow> string" where
  "numToString v = (case v of None \<Rightarrow> ''NaN'' | Some n \<Rightarrow> intToString 10 n)"

text \<open>Truthiness of a \<open>string | null\<close> value: null and the empty string are falsy.\<close>

definition truthy :: "string option \<Rightarrow> bool" where
  "truthy v = (case v of None \<Rightarrow> False | Some t \<Rightarrow> t \<noteq> [])"

section \<open>JavaScript numbers: binary64\<close>

text \<open>
  A JavaScript number is an IEEE 754 binary64 value: a finite value (a rational), an
  infinity or \<open>NaN\<close>. The two zeros are not told apart. Every arithmetic operation
  returns the exact result rounded to the nearest representable value, ties to the even
  significand (\<open>fl\<close>): the significand \<open>m\<close> has at most 53 bits, the exponent \<open>e\<close> of
  its last bit is at least \<open>-1074\<close>, and a rounded value of \<open>2^53 * 2^971 = 2^1024\<close> or
  more overflows to an infinity.
\<close>

datatype jsnum = Fin rat | PInf | NInf | NaN

text \<open>Round to the nearest integer, ties to even.\<close>

definition rne :: "rat \<Rightarrow> int" where
  "rne x =
     (let f = \<lfloor>x\<rfloor>; d = x - of_int f
      in if d < 1 / 2 then f else if 1 / 2 < d then f + 1 else if even f then f else f + 1)"

text \<open>The integer \<open>e\<close> with \<open>2^e \<le> |x| < 2^(e+1)\<close>, for \<open>x \<noteq> 0\<close>.\<close>

definition ilog2 :: "rat \<Rightarrow> int" where
  "ilog2 x =
     (let p = fst (quotient_of x); q = snd (quotient_of x);
          e = bitlen \<bar>p\<bar> - bitlen q
      in if 2 powi e \<le> \<bar>x\<bar> then e else e - 1)"

definition fl :: "rat \<Rightarrow> jsnum" where
  "fl x =
     (if x = 0 then Fin 0
      else
        let e = max (ilog2 x - 52) (- 1074);
            m = rne (x / 2 powi e)
        in if 971 < e \<or> (e = 971 \<and> 2 ^ 53 \<le> \<bar>m\<bar>) then (if 0 < x then PInf else NInf)
           else Fin (of_int m * 2 powi e))"

definition js_sign :: "jsnum \<Rightarrow> int" where
  "js_sign a = (case a of Fin x \<Rightarrow> (if 0 \<le> x then 1 else - 1) | PInf \<Rightarrow> 1 | NInf \<Rightarrow> - 1 | NaN \<Rightarrow> 0)"

definition js_neg :: "jsnum \<Rightarrow> jsnum" where
  "js_neg a = (case a of Fin x \<Rightarrow> Fin (- x) | PInf \<Rightarrow> NInf | NInf \<Rightarrow> PInf | NaN \<Rightarrow> NaN)"

definition js_add :: "jsnum \<Rightarrow> jsnum \<Rightarrow> jsnum" where
  "js_add a b =
     (case (a, b) of
        (Fin x, Fin y) \<Rightarrow> fl (x + y)
      | (NaN, _) \<Rightarrow> NaN
      | (_, NaN) \<Rightarrow> NaN
      | (Fin x, _) \<Rightarrow> b
      | (_, Fin y) \<Rightarrow> a
      | _ \<Rightarrow> (if a = b then a else NaN))"

definition js_sub :: "jsnum \<Rightarrow> jsnum \<Rightarrow> jsnum" where
  "js_sub a b = js_add a (js_neg b)"

definition js_mul :: "jsnum \<Rightarrow> jsnum \<Rightarrow> jsnum" where
  "js_mul a b =
     (case (a, b) of
        (Fin x, Fin y) \<Rightarrow> fl (x * y)
      | _ \<Rightarrow> (if a = NaN \<or> b = NaN \<or> a = Fin 0 \<or> b = Fin 0 then NaN
              else if js_sign a = js_sign b then PInf else NInf))"

definition js_div :: "jsnum \<Rightarrow> jsnum \<Rightarrow> jsnum" where
  "js_div a b =
     (case (a, b) of
        (Fin x, Fin y) \<Rightarrow>
          (if y = 0 then (if x = 0 then NaN else if 0 < x then PInf else NInf)
           else fl (x / y))
      | (NaN, _) \<Rightarrow> NaN
      | (_, NaN) \<Rightarrow> NaN
      | (Fin x, _) \<Rightarrow> Fin 0
      | (_, Fin y) \<Rightarrow> (if js_sign a = js_sign b then PInf else NInf)
      | _ \<Rightarrow> NaN)"

text \<open>\<open>Math.floor\<close> and \<open>Math.round\<close> (nearest integer, ties towards plus infinity).\<close>

definition js_floor :: "jsnum \<Rightarrow> jsnum" where
  "js_floor a = (case a of Fin x \<Rightarrow> Fin (of_int \<lfloor>x\<rfloor>) | _ \<Rightarrow> a)"

definition js_round :: "jsnum \<Rightarrow> jsnum" where
  "js_round a = (case a of Fin x \<Rightarrow> Fin (of_int \<lfloor>x + 1 / 2\<rfloor>) | _ \<Rightarrow> a)"

text \<open>An integer as a number (exact below \<open>2^53\<close>), and the result of \<open>parseInt\<close>.\<close>

definition num :: "int \<Rightarrow> jsnum" where
  "num n = Fin (of_int n)"

definition numOfParse :: "int option \<Rightarrow> jsnum" where
  "numOfParse v = (case v of None \<Rightarrow> NaN | Some n \<Rightarrow> num n)"

section \<open>The grid hook: ripple stepping\<close>

text \<open>
  \<open>getNextRipplePosition\<close> of the hook. \<open>parts[parts.length - 2] || parts[0]\<close> falls back
  to the first segment when the second-to-last one is missing or empty.
\<close>

definition rowSegment :: "string list \<Rightarrow> string" where
  "rowSegment parts =
     (let n = length parts;
          p = (if 2 \<le> n then parts ! (n - 2) else [])
      in if p = [] then parts ! 0 else p)"

definition getNextRipplePosition :: "int \<Rightarrow> string option \<Rightarrow> string option" where
  "getNextRipplePosition cols current =
     (case current of
        None \<Rightarrow> Some ''0-0''
      | Some cur \<Rightarrow>
          if cur = [] then Some ''0-0''
          else
            let parts = js_split CHR ''-'' cur;
                row = parseInt (rowSegment parts);
                col = parseInt (last parts)
            in if col = Some (cols - 1)
               then (if row = Some 4 then None
                     else Some (numToString (map_option (\<lambda>r. r + 1) row) @ ''-0''))
               else Some (numToString row @ ''-'' @ numToString (map_option (\<lambda>c. c + 1) col)))"

section \<open>The grid hook: state, timers and randomness\<close>

record GridConfig =
  cols :: int
  inactivityTimeout :: int
  rippleInterval :: int
  randomInterval :: int
  randomCount :: int
  enableMouseTracking :: bool

definition DEFAULT_CONFIG :: GridConfig where
  "DEFAULT_CONFIG =
     \<lparr>cols = 5, inactivityTimeout = 5000, rippleInterval = 200, randomInterval = 200,
      randomCount = 25, enableMouseTracking = False\<rparr>"

text \<open>
  The callbacks the hook hands to \<open>setTimeout\<close>/\<open>setInterval\<close>. The inactivity callback
  calls \<open>runRippleAnimation\<close> or \<open>runRandomDotAnimation\<close> as they were closed over when
  \<open>resetInactivityTimer\<close> was created, so it carries the value of \<open>selectedDot\<close> of that
  render. \<open>RandomPick\<close> is the inner \<open>setTimeout(..., 100)\<close> of the random interval, whose
  handle the code does not keep.
\<close>

datatype callback = InactivityCb "string option" | RippleTick | RandomTick | RandomPick

datatype navigation = RouterPush string | WindowOpen string

text \<open>
  The React state of the hook, its refs, and the part of the environment it acts on: the
  table of pending timers (handle and callback), the next fresh handle, and the log of
  navigation calls.
\<close>

record HookState =
  hoveredDot :: "string option"
  selectedDot :: "string option"
  selectedContent :: "string option"
  rippleDot :: "string option"
  randomDot :: "string option"
  isContentExpanded :: bool
  inactivityTimer :: "nat option"
  rippleIntervalRef :: "nat option"
  randomIntervalRef :: "nat option"
  isAnimatingRef :: bool
  usedDotsRef :: "string list"
  animationCountRef :: int
  timers :: "(nat \<times> callback) list"
  nextHandle :: nat
  navLog :: "navigation list"

definition setTimer :: "callback \<Rightarrow> HookState \<Rightarrow> nat \<times> HookState" where
  "setTimer cb s =
     (nextHandle s, s\<lparr>timers := timers s @ [(nextHandle s, cb)], nextHandle := Suc (nextHandle s)\<rparr>)"

definition clearTimer :: "nat \<Rightarrow> HookState \<Rightarrow> HookState" where
  "clearTimer h s = s\<lparr>timers := filter (\<lambda>e. fst e \<noteq> h) (timers s)\<rparr>"

text \<open>The ids \<open>`${i}-${j}`\<close> in the order of the two nested loops.\<close>

definition dotId :: "nat \<Rightarrow> nat \<Rightarrow> string" where
  "dotId i j = numToString (Some (int i)) @ ''-'' @ numToString (Some (int j))"

definition gridIds :: "int \<Rightarrow> string list" where
  "gridIds c = concat (map (\<lambda>i. map (\<lambda>j. dotId i j) [0..<nat c]) [0..<5])"

text \<open>
  The ref \<open>usedDotsRef\<close> holds a JavaScript \<open>Set\<close> of strings, which keeps its elements
  in insertion order: a list without repetition, with \<open>has\<close>, \<open>add\<close> and \<open>clear\<close>.
\<close>

definition set_has :: "string list \<Rightarrow> string \<Rightarrow> bool" where
  "set_has used d \<longleftrightarrow> d \<in> set used"

definition set_add :: "string \<Rightarrow> string list \<Rightarrow> string list" where
  "set_add d used = (if d \<in> set used then used else used @ [d])"

text \<open>The array \<open>allDotIds\<close> built by the two loops: the grid ids not in the used-set.\<close>

definition unusedDots :: "int \<Rightarrow> string list \<Rightarrow> string list" where
  "unusedDots c used = filter (\<lambda>d. \<not> set_has used d) (gridIds c)"

text \<open>
  \<open>xs[i]\<close> for a number \<open>i\<close>: the element at \<open>i\<close> when \<open>i\<close> is an integer from \<open>0\<close> to
  the length less one, and \<open>undefined\<close> (\<open>None\<close>) for every other number.
\<close>

definition elementAt :: "'a list \<Rightarrow> jsnum \<Rightarrow> 'a option" where
  "elementAt xs i =
     (case i of
        Fin q \<Rightarrow>
          (if q = of_int \<lfloor>q\<rfloor> \<and> 0 \<le> q \<and> q < of_nat (length xs) then Some (xs ! nat \<lfloor>q\<rfloor>)
           else None)
      | _ \<Rightarrow> None)"

text \<open>
  \<open>getRandomUnusedDot\<close>: with no candidate the used-set is cleared and the function calls
  itself. \<open>u\<close> is the value returned by \<open>Math.random()\<close>, a binary64 number; the index
  is \<open>Math.floor(Math.random() * allDotIds.length)\<close>, the floor of the binary64 product,
  and the length of an array is a number with that exact value. The result is the element read
  at the index (\<open>None\<close> for \<open>undefined\<close>) and the new used-set; the used-set is only ever
  asked for ids, so an \<open>undefined\<close> added to it is not recorded. The recursion need not end
  (for \<open>cols \<le> 0\<close> there is never a candidate), so the whole is an option and \<open>None\<close>
  means that the call does not return.
\<close>

partial_function (option) getRandomUnusedDot ::
  "int \<Rightarrow> rat \<Rightarrow> string list \<Rightarrow> (string option \<times> string list) option" where
  "getRandomUnusedDot c u used =
     (let allDotIds = unusedDots c used in
      if allDotIds = [] then getRandomUnusedDot c u []
      else
        let randomIndex = js_floor (js_mul (Fin u) (num (int (length allDotIds))));
            selected = elementAt allDotIds randomIndex
        in Some (selected, case selected of Some d \<Rightarrow> set_add d used | None \<Rightarrow> used))"

declare getRandomUnusedDot.simps [code]

section \<open>The grid hook: animations and handlers\<close>

definition initialState :: HookState where
  "initialState =
     \<lparr>hoveredDot = None, selectedDot = None, selectedContent = None, rippleDot = None,
      randomDot = None, isContentExpanded = False, inactivityTimer = None,
      rippleIntervalRef = None, randomIntervalRef = None, isAnimatingRef = False,
      usedDotsRef = [], animationCountRef = 0, timers = [], nextHandle = 1, navLog = []\<rparr>"

definition clearAllAnimations :: "HookState \<Rightarrow> HookState" where
  "clearAllAnimations s =
     (let s1 = (case rippleIntervalRef s of
                  Some h \<Rightarrow> (clearTimer h s)\<lparr>rippleIntervalRef := None\<rparr>
                | None \<Rightarrow> s);
          s2 = (case randomIntervalRef s1 of
                  Some h \<Rightarrow> (clearTimer h s1)\<lparr>randomIntervalRef := None\<rparr>
                | None \<Rightarrow> s1);
          s3 = (case inactivityTimer s2 of
                  Some h \<Rightarrow> (clearTimer h s2)\<lparr>inactivityTimer := None\<rparr>
                | None \<Rightarrow> s2)
      in s3\<lparr>rippleDot := None, randomDot := None, isAnimatingRef := False\<rparr>)"

text \<open>
  In \<open>runRippleAnimation\<close>, \<open>runRandomDotAnimation\<close> and \<open>resetInactivityTimer\<close> the
  variable \<open>selectedDot\<close> is the constant of the render in which the callback was created;
  a call of \<open>setSelectedDot\<close> does not change it. It is the argument \<open>sel\<close> below, while
  the refs are read from the current state.
\<close>

definition runRippleAnimation :: "string option \<Rightarrow> HookState \<Rightarrow> HookState" where
  "runRippleAnimation sel s =
     (if isAnimatingRef s \<or> truthy sel then s
      else
        let s1 = s\<lparr>isAnimatingRef := True, rippleDot := Some ''0-0''\<rparr>;
            (h, s2) = setTimer RippleTick s1
        in s2\<lparr>rippleIntervalRef := Some h\<rparr>)"

text \<open>The body of the ripple interval: the updater passed to \<open>setRippleDot\<close>.\<close>

definition rippleTick :: "GridConfig \<Rightarrow> HookState \<Rightarrow> HookState" where
  "rippleTick cfg s =
     (case getNextRipplePosition (cols cfg) (rippleDot s) of
        None \<Rightarrow>
          (let s1 = (case rippleIntervalRef s of
                       Some h \<Rightarrow> (clearTimer h s)\<lparr>rippleIntervalRef := None\<rparr>
                     | None \<Rightarrow> s)
           in s1\<lparr>rippleDot := None, isAnimatingRef := False\<rparr>)
      | Some next \<Rightarrow> s\<lparr>rippleDot := Some next\<rparr>)"

definition runRandomDotAnimation ::
  "GridConfig \<Rightarrow> string option \<Rightarrow> rat \<Rightarrow> HookState \<Rightarrow> HookState option" where
  "runRandomDotAnimation cfg sel u s =
     (if isAnimatingRef s \<or> truthy sel then Some s
      else
        let s0 = s\<lparr>isAnimatingRef := True, animationCountRef := 0\<rparr> in
        case getRandomUnusedDot (cols cfg) u (usedDotsRef s0) of
          None \<Rightarrow> None
        | Some (nextDot, used) \<Rightarrow>
            let s1 = s0\<lparr>usedDotsRef := used, randomDot := nextDot,
                        animationCountRef := animationCountRef s0 + 1\<rparr>;
                (h, s2) = setTimer RandomTick s1
            in Some (s2\<lparr>randomIntervalRef := Some h\<rparr>))"

text \<open>The body of the random interval.\<close>

definition randomTick :: "GridConfig \<Rightarrow> HookState \<Rightarrow> HookState" where
  "randomTick cfg s =
     (if randomCount cfg \<le> animationCountRef s
      then
        (let s1 = (case randomIntervalRef s of
                     Some h \<Rightarrow> (clearTimer h s)\<lparr>randomIntervalRef := None\<rparr>
                   | None \<Rightarrow> s)
         in s1\<lparr>randomDot := None, isAnimatingRef := False, usedDotsRef := []\<rparr>)
      else snd (setTimer RandomPick (s\<lparr>randomDot := None\<rparr>)))"

text \<open>The body of the inner 100 ms timeout of the random interval.\<close>

definition randomPick :: "GridConfig \<Rightarrow> rat \<Rightarrow> HookState \<Rightarrow> HookState option" where
  "randomPick cfg u s =
     (case getRandomUnusedDot (cols cfg) u (usedDotsRef s) of
        None \<Rightarrow> None
      | Some (next, used) \<Rightarrow>
          Some (s\<lparr>usedDotsRef := used, randomDot := next,
                  animationCountRef := animationCountRef s + 1\<rparr>))"

definition resetInactivityTimer :: "string option \<Rightarrow> HookState \<Rightarrow> HookState" where
  "resetInactivityTimer sel s =
     (let s1 = (case inactivityTimer s of Some h \<Rightarrow> clearTimer h s | None \<Rightarrow> s)
      in if \<not> isAnimatingRef s1 \<and> \<not> truthy sel
         then (let (h, s2) = setTimer (InactivityCb sel) s1 in s2\<lparr>inactivityTimer := Some h\<rparr>)
         else s1)"

text \<open>
  The event loop delivering the timer with handle \<open>h\<close>. A handle that is not pending
  (never set, cleared, or a timeout that has fired) delivers nothing. \<open>u1\<close> and \<open>u2\<close> are
  the values of the calls of \<open>Math.random()\<close> the callback makes, in order. Timeouts are
  removed when they fire, intervals stay.
\<close>

definition fire :: "GridConfig \<Rightarrow> rat \<Rightarrow> rat \<Rightarrow> nat \<Rightarrow> HookState \<Rightarrow> HookState option" where
  "fire cfg u1 u2 h s =
     (case map_of (timers s) h of
        None \<Rightarrow> Some s
      | Some (InactivityCb sel) \<Rightarrow>
          (if u1 < 1 / 2 then Some (runRippleAnimation sel (clearTimer h s))
           else runRandomDotAnimation cfg sel u2 (clearTimer h s))
      | Some RippleTick \<Rightarrow> Some (rippleTick cfg s)
      | Some RandomTick \<Rightarrow> Some (randomTick cfg s)
      | Some RandomPick \<Rightarrow> randomPick cfg u1 (clearTimer h s))"

definition handleDotClick :: "string \<Rightarrow> string \<Rightarrow> HookState \<Rightarrow> HookState" where
  "handleDotClick dot contentKey s =
     (clearAllAnimations s)\<lparr>selectedDot := Some dot, selectedContent := Some contentKey\<rparr>"

text \<open>
  \<open>handleClose\<close> is called from the render that shows the open card: the three setters
  queue the new values, and \<open>resetInactivityTimer\<close> then runs with the \<open>selectedDot\<close> of
  that render, which is the \<open>selectedDot\<close> of the state the handler is called in.
\<close>

definition handleClose :: "HookState \<Rightarrow> HookState" where
  "handleClose s =
     resetInactivityTimer (selectedDot s)
       (s\<lparr>selectedDot := None, selectedContent := None, isContentExpanded := False,
          navLog := navLog s @ [RouterPush ''/'']\<rparr>)"

definition handleBackgroundClick :: "HookState \<Rightarrow> HookState" where
  "handleBackgroundClick s = (if truthy (selectedContent s) then handleClose s else s)"

text \<open>
  The state after the first render and its effects, for the slugs of \<open>data.artists\<close> and
  the initial slug: the initial values of \<open>useState\<close>, then \<open>resetInactivityTimer\<close> of
  the first render, then the effect for the slug \<open>subscribe\<close>.
\<close>

definition mount :: "string list \<Rightarrow> string option \<Rightarrow> HookState" where
  "mount artistSlugs initialSlug =
     (let content = (case initialSlug of
                       None \<Rightarrow> None
                     | Some t \<Rightarrow>
                         if t \<noteq> [] \<and> (''events-ancient-technology-'' @ t) \<in> set artistSlugs
                         then Some t else None);
          s0 = initialState\<lparr>selectedDot := initialSlug, selectedContent := content\<rparr>;
          s1 = resetInactivityTimer initialSlug s0
      in if initialSlug = Some ''subscribe''
         then s1\<lparr>selectedDot := Some ''subscribe'', selectedContent := Some ''subscribe'',
                 isContentExpanded := True\<rparr>
         else s1)"

section \<open>The grid hook: artist clicks, display state, selected position\<close>

record ArtistData =
  artistName :: string
  slug :: string
  isSpecialLink :: "bool option"
  linkType :: "string option"
  url :: "string option"

definition toLowerCase :: "string \<Rightarrow> string" where
  "toLowerCase t =
     map (\<lambda>c. let n = (of_char c :: nat) in
               if 65 \<le> n \<and> n \<le> 90 then char_of (n + 32) else c) t"

text \<open>The character class \<open>[a-z0-9]\<close>.\<close>

definition isSlugChar :: "char \<Rightarrow> bool" where
  "isSlugChar c = (let n = (of_char c :: nat) in (97 \<le> n \<and> n \<le> 122) \<or> (48 \<le> n \<and> n \<le> 57))"

text \<open>
  \<open>.replace(/[^a-z0-9]+/g, '-')\<close>: every maximal run of characters outside the class
  becomes one hyphen. The flag says that the previous character was part of a run that has
  been replaced already.
\<close>

fun replaceRuns :: "bool \<Rightarrow> string \<Rightarrow> string" where
  "replaceRuns inRun [] = []"
| "replaceRuns inRun (c # cs) =
     (if isSlugChar c then c # replaceRuns False cs
      else if inRun then replaceRuns True cs
      else CHR ''-'' # replaceRuns True cs)"

text \<open>\<open>.replace(/^-+|-+$/g, '')\<close>: the hyphens at the start and at the end are removed.\<close>

definition trimHyphens :: "string \<Rightarrow> string" where
  "trimHyphens t =
     rev (dropWhile (\<lambda>c. c = CHR ''-'') (rev (dropWhile (\<lambda>c. c = CHR ''-'') t)))"

definition artistSlugOf :: "string \<Rightarrow> string" where
  "artistSlugOf name = trimHyphens (replaceRuns False (toLowerCase name))"

definition handleArtistDotClick :: "string \<Rightarrow> ArtistData \<Rightarrow> HookState \<Rightarrow> HookState" where
  "handleArtistDotClick dot artist s =
     (let s1 = clearAllAnimations s in
      if isSpecialLink artist = Some True
      then
        (if linkType artist = Some ''subscribe''
         then s1\<lparr>navLog := navLog s1 @ [RouterPush ''/subscribe'']\<rparr>
         else if linkType artist = Some ''instagram'' \<and> truthy (url artist)
         then (case url artist of
                 Some target \<Rightarrow> s1\<lparr>navLog := navLog s1 @ [WindowOpen target]\<rparr>
               | None \<Rightarrow> s1)
         else s1)
      else
        let artistSlug = artistSlugOf (artistName artist)
        in s1\<lparr>navLog := navLog s1 @ [RouterPush (''/events/ancient-technology/'' @ artistSlug)],
              selectedDot := Some dot, selectedContent := Some artistSlug\<rparr>)"

record DotDisplayState =
  isHovered :: bool
  isRippling :: bool
  isRandomlySelected :: bool
  isSelected :: bool
  isClickedDot :: bool
  shouldHide :: bool

text \<open>
  \<open>getDotDisplayState\<close> of the hook. Besides the state it reads \<open>window.innerWidth\<close>;
  \<open>innerWidth = None\<close> stands for \<open>typeof window === 'undefined'\<close>.
\<close>

definition getDotDisplayState :: "int option \<Rightarrow> HookState \<Rightarrow> string \<Rightarrow> DotDisplayState" where
  "getDotDisplayState innerWidth s dot =
     (let hovered = (hoveredDot s = Some dot);
          rippling = (rippleDot s = Some dot);
          randomlySelected = (randomDot s = Some dot);
          selected = (selectedDot s \<noteq> None);
          clicked = (selectedDot s = Some dot);
          isMobile = (case innerWidth of None \<Rightarrow> False | Some w \<Rightarrow> w < 1024)
      in \<lparr>isHovered = hovered, isRippling = rippling, isRandomlySelected = randomlySelected,
          isSelected = selected, isClickedDot = clicked,
          shouldHide = (isMobile \<and> selected \<and> \<not> clicked)\<rparr>)"

text \<open>The variant in \<open>useDotProps.ts\<close>, which takes the context and an optional \<open>isMobile\<close>.\<close>

record DotGridContext =
  ctxHoveredDot :: "string option"
  ctxSelectedDot :: "string option"
  ctxRippleDot :: "string option"
  ctxRandomDot :: "string option"
  ctxIsMobile :: "bool option"

definition getDotDisplayStateProps :: "string \<Rightarrow> DotGridContext \<Rightarrow> DotDisplayState" where
  "getDotDisplayStateProps ident ctx =
     \<lparr>isHovered = (ctxHoveredDot ctx = Some ident),
      isRippling = (ctxRippleDot ctx = Some ident),
      isRandomlySelected = (ctxRandomDot ctx = Some ident),
      isSelected = (ctxSelectedDot ctx \<noteq> None),
      isClickedDot = (ctxSelectedDot ctx = Some ident),
      shouldHide = (ctxIsMobile ctx = Some True \<and> ctxSelectedDot ctx \<noteq> None
                    \<and> ctxSelectedDot ctx \<noteq> Some ident)\<rparr>"

record 'n GridPosition =
  row :: 'n
  col :: 'n

text \<open>
  \<open>getSelectedPosition\<close> of the hook; \<open>None\<close> is \<open>undefined\<close>. None of the operations
  it uses (\<open>split\<close>, indexing, \<open>parseInt\<close>, \<open>isNaN\<close>) can throw, so there is no error
  branch.
\<close>

definition getSelectedPosition :: "HookState \<Rightarrow> int GridPosition option" where
  "getSelectedPosition s =
     (case selectedDot s of
        None \<Rightarrow> None
      | Some sel \<Rightarrow>
          if sel = [] then None
          else
            let parts = js_split CHR ''-'' sel in
            if 2 \<le> length parts
            then (case parseInt (rowSegment parts) of
                    None \<Rightarrow> None
                  | Some r \<Rightarrow>
                      (case parseInt (last parts) of
                         None \<Rightarrow> None
                       | Some c \<Rightarrow> Some \<lparr>row = r, col = c\<rparr>))
            else None)"

text \<open>The \<open>selectedPosition\<close> memo of \<open>useDotProps\<close>, which has no fallback segment.\<close>

definition selectedPosition :: "string option \<Rightarrow> int GridPosition option" where
  "selectedPosition selDot =
     (case selDot of
        None \<Rightarrow> None
      | Some sel \<Rightarrow>
          if sel = [] then None
          else
            let parts = js_split CHR ''-'' sel in
            if 2 \<le> length parts
            then (case parseInt (parts ! (length parts - 2)) of
                    None \<Rightarrow> None
                  | Some r \<Rightarrow>
                      (case parseInt (last parts) of
                         None \<Rightarrow> None
                       | Some c \<Rightarrow> Some \<lparr>row = r, col = c\<rparr>))
            else None)"

section \<open>Vector2D.ts: grid and world coordinates\<close>

record Vector2D =
  x :: jsnum
  y :: jsnum

definition gridToWorld :: "jsnum GridPosition \<Rightarrow> jsnum \<Rightarrow> jsnum \<Rightarrow> Vector2D" where
  "gridToWorld gridPos cellSize gap =
     \<lparr>x = js_mul (col gridPos) (js_add cellSize gap),
      y = js_mul (row gridPos) (js_add cellSize gap)\<rparr>"

definition worldToGrid :: "Vector2D \<Rightarrow> jsnum \<Rightarrow> jsnum \<Rightarrow> jsnum GridPosition" where
  "worldToGrid worldPos cellSize gap =
     \<lparr>row = js_floor (js_div (y worldPos) (js_add cellSize gap)),
      col = js_floor (js_div (x worldPos) (js_add cellSize gap))\<rparr>"

section \<open>DotFactory.ts: position colours\<close>

text \<open>\<open>String.prototype.slice(a, b)\<close> for \<open>0 \<le> a \<le> b\<close> and \<open>padStart(2, '0')\<close>.\<close>

definition slice :: "nat \<Rightarrow> nat \<Rightarrow> string \<Rightarrow> string" where
  "slice a b t = take (b - a) (drop a t)"

definition padStart2 :: "string \<Rightarrow> string" where
  "padStart2 t = replicate (2 - length t) CHR ''0'' @ t"

text \<open>
  \<open>Number.prototype.toString(16)\<close>, used on the results of \<open>Math.round\<close>: integers,
  infinities and \<open>NaN\<close>.
\<close>

definition toString16 :: "jsnum \<Rightarrow> string" where
  "toString16 a =
     (case a of
        Fin v \<Rightarrow> intToString 16 \<lfloor>v\<rfloor>
      | PInf \<Rightarrow> ''Infinity''
      | NInf \<Rightarrow> ''-Infinity''
      | NaN \<Rightarrow> ''NaN'')"

definition hex :: "string \<Rightarrow> jsnum" where
  "hex c = numOfParse (parseIntCore 16 c)"

definition mixChannel :: "jsnum \<Rightarrow> jsnum \<Rightarrow> jsnum \<Rightarrow> jsnum" where
  "mixChannel c1 c2 factor = js_round (js_add c1 (js_mul (js_sub c2 c1) factor))"

definition interpolateColor :: "string \<Rightarrow> string \<Rightarrow> jsnum \<Rightarrow> string" where
  "interpolateColor color1 color2 factor =
     (let r1 = hex (slice 1 3 color1); g1 = hex (slice 3 5 color1); b1 = hex (slice 5 7 color1);
          r2 = hex (slice 1 3 color2); g2 = hex (slice 3 5 color2); b2 = hex (slice 5 7 color2);
          r = mixChannel r1 r2 factor;
          g = mixChannel g1 g2 factor;
          b = mixChannel b1 b2 factor
      in ''#'' @ padStart2 (toString16 r) @ padStart2 (toString16 g) @ padStart2 (toString16 b))"

definition skyfall :: string where "skyfall = ''#A8D5E5''"
definition dawnGlow :: string where "dawnGlow = ''#FFB7A5''"
definition violetHour :: string where "violetHour = ''#C9A7EB''"
definition dustyRose :: string where "dustyRose = ''#D4A5A5''"
definition mustardPress :: string where "mustardPress = ''#E8B84A''"
definition seaFoam :: string where "seaFoam = ''#98D4BB''"

text \<open>\<open>ROW_COLOR_ZONES\<close>: the primary and the secondary colour of each of the five zones.\<close>

definition ROW_COLOR_ZONES :: "(string \<times> string) list" where
  "ROW_COLOR_ZONES =
     [(skyfall, violetHour), (violetHour, dustyRose), (dustyRose, dawnGlow),
      (dawnGlow, mustardPress), (mustardPress, seaFoam)]"

datatype js_error = TypeError

text \<open>
  \<open>getPositionColor(row, col, totalCols)\<close> for integer arguments. A negative row reads
  \<open>undefined\<close> from the zone array, and the access to its \<open>primary\<close> throws.
\<close>

definition getPositionColor :: "int \<Rightarrow> int \<Rightarrow> int \<Rightarrow> js_error + string" where
  "getPositionColor r c totalCols =
     (let safeRow = min r (int (length ROW_COLOR_ZONES) - 1) in
      if safeRow < 0 then Inl TypeError
      else
        let zone = ROW_COLOR_ZONES ! nat safeRow;
            colFactor = js_div (num c) (js_sub (num totalCols) (num 1))
        in Inr (interpolateColor (fst zone) (snd zone) colFactor))"

section \<open>Runs of the timers\<close>

text \<open>The timer with handle \<open>h\<close> delivered \<open>n\<close> times in a row.\<close>

fun fireTimes :: "GridConfig \<Rightarrow> rat \<Rightarrow> rat \<Rightarrow> nat \<Rightarrow> nat \<Rightarrow> HookState \<Rightarrow> HookState option" where
  "fireTimes cfg u1 u2 h 0 s = Some s"
| "fireTimes cfg u1 u2 h (Suc n) s =
     (case fire cfg u1 u2 h s of None \<Rightarrow> None | Some s' \<Rightarrow> fireTimes cfg u1 u2 h n s')"

text \<open>
  A run of the hook with the default configuration and no artists: after mount the inactivity timeout
  (handle 1) fires and starts the random animation, the random interval (handle 2) ticks
  once and schedules the next pick (handle 3), and the user clicks the dot \<open>2-0\<close> before
  that pick is due; then the pick fires. The result is the state right after the click and
  the state after the pick.
\<close>

definition clickDuringRandomPause :: "(HookState \<times> HookState) option" where
  "clickDuringRandomPause =
     (case fire DEFAULT_CONFIG (3 / 4) 0 1 (mount [] None) of
        None \<Rightarrow> None
      | Some s1 \<Rightarrow>
          (case fire DEFAULT_CONFIG 0 0 2 s1 of
             None \<Rightarrow> None
           | Some s2 \<Rightarrow>
               (case fire DEFAULT_CONFIG 0 0 3 (handleDotClick ''2-0'' ''About'' s2) of
                  None \<Rightarrow> None
                | Some s4 \<Rightarrow> Some (handleDotClick ''2-0'' ''About'' s2, s4))))"

text \<open>A string in which no two hyphens are adjacent.\<close>

fun noDoubleHyphen :: "string \<Rightarrow> bool" where
  "noDoubleHyphen (a # b # t) = (\<not> (a = CHR ''-'' \<and> b = CHR ''-'') \<and> noDoubleHyphen (b # t))"
| "noDoubleHyphen t = True"

text \<open>
  The slugging rule said with words: the maximal runs of characters of \<open>[a-z0-9]\<close> of a
  string, in order (\<open>w\<close> is the run being read), and a list of words joined by single
  hyphens.
\<close>

fun alnumRuns :: "string \<Rightarrow> string \<Rightarrow> string list" where
  "alnumRuns w [] = (if w = [] then [] else [w])"
| "alnumRuns w (c # cs) =
     (if isSlugChar c then alnumRuns (w @ [c]) cs
      else (if w = [] then [] else [w]) @ alnumRuns [] cs)"

fun joinHyphen :: "string list \<Rightarrow> string" where
  "joinHyphen [] = []"
| "joinHyphen [w] = w"
| "joinHyphen (w # ws) = w @ ''-'' @ joinHyphen ws"

definition slugByWords :: "string \<Rightarrow> string" where
  "slugByWords name = joinHyphen (alnumRuns [] (toLowerCase name))"

text \<open>
  A Randomizing sequence: one call of \<open>getRandomUnusedDot\<close> for each value of
  \<open>Math.random()\<close> in the list, the used-set passed on from call to call. Each entry of the
  result is the value picked together with the used-set the call started from.
\<close>

fun randomPicks ::
  "int \<Rightarrow> string list \<Rightarrow> rat list \<Rightarrow> (string option \<times> string list) list option" where
  "randomPicks c used [] = Some []"
| "randomPicks c used (u # us) =
     (case getRandomUnusedDot c u used of
        None \<Rightarrow> None
      | Some (d, used') \<Rightarrow>
          (case randomPicks c used' us of
             None \<Rightarrow> None
           | Some tr \<Rightarrow> Some ((d, used) # tr)))"

text \<open>
  The three components of a colour string, read the way \<open>interpolateColor\<close> reads them,
  and the relation "\<open>v\<close> lies between \<open>a\<close> and \<open>b\<close>, inclusive" on finite numbers.
\<close>

definition channels :: "string \<Rightarrow> jsnum list" where
  "channels t = [hex (slice 1 3 t), hex (slice 3 5 t), hex (slice 5 7 t)]"

definition liesBetween :: "jsnum \<Rightarrow> jsnum \<Rightarrow> jsnum \<Rightarrow> bool" where
  "liesBetween a v b =
     (case a of
        Fin p \<Rightarrow> (case v of
                    Fin q \<Rightarrow> (case b of Fin r \<Rightarrow> min p r \<le> q \<and> q \<le> max p r | _ \<Rightarrow> False)
                  | _ \<Rightarrow> False)
      | _ \<Rightarrow> False)"

section \<open>Properties of the binary64 rounding\<close>

text \<open>\<open>ilog2\<close> is the binary exponent of a non-zero number.\<close>

lemma ilog2_bounds:
  fixes x :: rat assumes "x \<noteq> 0"
  shows "2 powi (ilog2 x) \<le> \<bar>x\<bar>" and "\<bar>x\<bar> < 2 powi (ilog2 x + 1)"
proof -
  obtain p q where pq: "quotient_of x = (p, q)" by (cases "quotient_of x")
  have q: "0 < q" using pq by (rule quotient_of_denom_pos)
  have x: "x = of_int p / of_int q" using pq by (rule quotient_of_div)
  have p: "p \<noteq> 0" using assms x by auto
  then have ap: "0 < \<bar>p\<bar>" by simp
  define bp where "bp = bitlen \<bar>p\<bar>"
  define bq where "bq = bitlen q"
  have bpb: "2 ^ nat (bp - 1) \<le> \<bar>p\<bar>" "\<bar>p\<bar> < 2 ^ nat bp"
    using bitlen_bounds[OF ap] by (simp_all add: bp_def)
  have bqb: "2 ^ nat (bq - 1) \<le> q" "q < 2 ^ nat bq"
    using bitlen_bounds[OF q] by (simp_all add: bq_def)
  have bp1: "1 \<le> bp" using ap bpb(2) using bitlen_nonneg[of "\<bar>p\<bar>"] bitlen_eq_zero_iff[of "\<bar>p\<bar>"] by (simp add: bp_def)
  have bq1: "1 \<le> bq" using q bqb(2) using bitlen_nonneg[of q] bitlen_eq_zero_iff[of q] by (simp add: bq_def)
  have ax: "\<bar>x\<bar> = of_int \<bar>p\<bar> / of_int q" using x q by simp
  have P1: "(2::rat) powi (bp - 1) \<le> of_int \<bar>p\<bar>"
  proof -
    have "(of_int (2 ^ nat (bp - 1)) :: rat) \<le> of_int \<bar>p\<bar>" using bpb(1) by (simp only: of_int_le_iff)
    then show ?thesis using bp1 by (simp add: power_int_def)
  qed
  have P2: "of_int \<bar>p\<bar> < (2::rat) powi bp"
  proof -
    have "(of_int \<bar>p\<bar> :: rat) < of_int (2 ^ nat bp)" using bpb(2) by (simp only: of_int_less_iff)
    then show ?thesis using bp1 by (simp add: power_int_def)
  qed
  have Q1: "(2::rat) powi (bq - 1) \<le> of_int q"
  proof -
    have "(of_int (2 ^ nat (bq - 1)) :: rat) \<le> of_int q" using bqb(1) by (simp only: of_int_le_iff)
    then show ?thesis using bq1 by (simp add: power_int_def)
  qed
  have Q2: "of_int q < (2::rat) powi bq"
  proof -
    have "(of_int q :: rat) < of_int (2 ^ nat bq)" using bqb(2) by (simp only: of_int_less_iff)
    then show ?thesis using bq1 by (simp add: power_int_def)
  qed
  have qr: "(0::rat) < of_int q" using q by simp
  have lo: "2 powi (bp - bq - 1) < \<bar>x\<bar>"
  proof -
    have "(2::rat) powi (bp - bq - 1) * of_int q < 2 powi (bp - bq - 1) * 2 powi bq"
      using Q2 by (simp add: mult_strict_left_mono)
    also have "\<dots> = 2 powi (bp - 1)" by (simp add: power_int_add[symmetric])
    also have "\<dots> \<le> of_int \<bar>p\<bar>" by (rule P1)
    finally show ?thesis using qr by (simp add: ax pos_less_divide_eq)
  qed
  have hi: "\<bar>x\<bar> < 2 powi (bp - bq + 1)"
  proof -
    have "of_int \<bar>p\<bar> < (2::rat) powi bp" by (rule P2)
    also have "\<dots> = 2 powi (bp - bq + 1) * 2 powi (bq - 1)" by (simp add: power_int_add[symmetric])
    also have "\<dots> \<le> 2 powi (bp - bq + 1) * of_int q"
      using Q1 by (simp add: mult_left_mono)
    finally show ?thesis using qr by (simp add: ax pos_divide_less_eq)
  qed
  have il: "ilog2 x = (if 2 powi (bp - bq) \<le> \<bar>x\<bar> then bp - bq else bp - bq - 1)"
    by (simp add: ilog2_def pq bp_def bq_def Let_def)
  show "2 powi (ilog2 x) \<le> \<bar>x\<bar>" using lo by (simp add: il)
  show "\<bar>x\<bar> < 2 powi (ilog2 x + 1)" using hi by (auto simp add: il)
qed
lemma rne_of_int: "rne (of_int n) = n"
  by (simp add: rne_def)

lemma fl_exact:
  fixes k j :: int
  assumes k: "\<bar>k\<bar> < 2 ^ 53" and j: "- 1074 \<le> j" "j \<le> 971"
  shows "fl (of_int k * 2 powi j) = Fin (of_int k * 2 powi j)"
proof (cases "k = 0")
  case True
  then show ?thesis by (simp add: fl_def)
next
  case False
  define v :: rat where "v = of_int k * 2 powi j"
  have v0: "v \<noteq> 0" using False by (simp add: v_def)
  define e where "e = max (ilog2 v - 52) (- 1074)"
  have av: "\<bar>v\<bar> = of_int \<bar>k\<bar> * 2 powi j" by (simp add: v_def abs_mult)
  have "of_int \<bar>k\<bar> < (of_int (2 ^ 53) :: rat)" using k by (simp only: of_int_less_iff)
  then have kr: "of_int \<bar>k\<bar> < (2 powi 53 :: rat)" by simp
  have "\<bar>v\<bar> < 2 powi 53 * 2 powi j" unfolding av using kr by (simp add: mult_strict_right_mono)
  then have up: "\<bar>v\<bar> < 2 powi (53 + j)" by (simp add: power_int_add)
  have "2 powi (ilog2 v) < (2 powi (53 + j) :: rat)"
    using ilog2_bounds(1)[OF v0] up by (rule le_less_trans)
  then have "ilog2 v < 53 + j"
    using power_int_increasing[of "53 + j" "ilog2 v" "2::rat"] by (cases "ilog2 v < 53 + j") auto
  then have ej: "e \<le> j" using j by (simp add: e_def)
  define d where "d = nat (j - e)"
  have jd: "j = e + int d" using ej by (simp add: d_def)
  have pw: "(2::rat) powi j = 2 ^ d * 2 powi e"
    unfolding jd by (simp add: power_int_add)
  have pe: "(2::rat) powi e \<noteq> 0" by simp
  have q: "v / 2 powi e = of_int (k * 2 ^ d)"
    unfolding v_def pw using pe by simp
  have m: "rne (v / 2 powi e) = k * 2 ^ d" unfolding q by (rule rne_of_int)
  have bk: "of_int k * 2 ^ d * 2 powi e = v"
    unfolding v_def pw by simp
  have nov: "\<not> (971 < e \<or> (e = 971 \<and> 2 ^ 53 \<le> \<bar>k * 2 ^ d\<bar>))"
  proof -
    have "\<not> 971 < e" using ej j by simp
    moreover have "\<bar>k * 2 ^ d\<bar> < 2 ^ 53" if "e = 971"
    proof -
      have "d = 0" using that ej j by (simp add: d_def)
      then show ?thesis using k by simp
    qed
    ultimately show ?thesis by auto
  qed
  have "fl v = Fin v"
    using v0 nov by (simp add: fl_def Let_def e_def[symmetric] m bk)
  then show ?thesis by (simp add: v_def)
qed
section \<open>The error of the binary64 rounding\<close>

lemma rne_error: "\<bar>of_int (rne t) - t\<bar> \<le> 1 / 2"
proof -
  have "of_int \<lfloor>t\<rfloor> \<le> t" "t < of_int \<lfloor>t\<rfloor> + 1" by linarith+
  then show ?thesis by (auto simp: rne_def Let_def)
qed

lemma rne_ge_int: "of_int k \<le> t \<Longrightarrow> k \<le> rne t"
proof -
  assume "of_int k \<le> t"
  then have "k \<le> \<lfloor>t\<rfloor>" by (simp add: le_floor_iff)
  then show ?thesis by (simp add: rne_def Let_def)
qed

lemma ilog2_less:
  fixes v :: rat
  assumes "v \<noteq> 0" and "\<bar>v\<bar> < 2 powi L"
  shows "ilog2 v < L"
proof -
  have "(2::rat) powi (ilog2 v) < 2 powi L"
    using ilog2_bounds(1)[OF assms(1)] assms(2) by (rule le_less_trans)
  then show ?thesis
    using power_int_increasing[of L "ilog2 v" "2::rat"] by (cases "ilog2 v < L") auto
qed

lemma ilog2_ge:
  fixes v :: rat
  assumes "v \<noteq> 0" and "2 powi L \<le> \<bar>v\<bar>"
  shows "L \<le> ilog2 v"
proof -
  have "(2::rat) powi L < 2 powi (ilog2 v + 1)"
    using assms(2) ilog2_bounds(2)[OF assms(1)] by (rule le_less_trans)
  then have "L < ilog2 v + 1"
    using power_int_increasing[of "ilog2 v + 1" L "2::rat"] by (cases "L < ilog2 v + 1") auto
  then show ?thesis by simp
qed

text \<open>A number below \<open>2^53\<close> in magnitude does not overflow.\<close>

lemma fl_small:
  fixes v :: rat
  assumes "v \<noteq> 0" and "\<bar>v\<bar> < 2 ^ 53"
  defines "e \<equiv> max (ilog2 v - 52) (- 1074)"
  shows "e \<le> 0" and "fl v = Fin (of_int (rne (v / 2 powi e)) * 2 powi e)"
proof -
  have "\<bar>v\<bar> < 2 powi 53" using assms(2) by simp
  then have "ilog2 v < 53" using assms(1) by (intro ilog2_less)
  then show e: "e \<le> 0" by (simp add: e_def)
  then have "\<not> (971 < e \<or> (e = 971 \<and> 2 ^ 53 \<le> \<bar>rne (v / 2 powi e)\<bar>))" by simp
  then show "fl v = Fin (of_int (rne (v / 2 powi e)) * 2 powi e)"
    using assms(1) unfolding fl_def Let_def e_def by simp
qed

text \<open>The value of a finite result, and its distance from the exact value.\<close>

lemma fl_Fin:
  fixes v :: rat
  assumes "fl v = Fin p"
  shows "p = of_int (rne (v / 2 powi max (ilog2 v - 52) (- 1074))) * 2 powi max (ilog2 v - 52) (- 1074)"
proof (cases "v = 0")
  case True
  then show ?thesis using assms by (simp add: fl_def rne_def)
next
  case False
  then show ?thesis using assms by (simp add: fl_def Let_def split: if_splits)
qed

lemma fl_form:
  assumes "fl v = Fin p"
  shows "\<exists>m e. p = of_int m * 2 powi e \<and> - 1074 \<le> e"
  using fl_Fin[OF assms] by (intro exI[of _ "rne (v / 2 powi max (ilog2 v - 52) (- 1074))"]
      exI[of _ "max (ilog2 v - 52) (- 1074)"]) simp

lemma fl_abs_error:
  fixes v :: rat
  assumes "fl v = Fin p"
  shows "\<bar>p - v\<bar> \<le> 2 powi max (ilog2 v - 52) (- 1074) / 2"
proof -
  define e where "e = max (ilog2 v - 52) (- 1074)"
  define t where "t = v / 2 powi e"
  have pe: "(0::rat) < 2 powi e" by simp
  have p: "p = of_int (rne t) * 2 powi e" using fl_Fin[OF assms] by (simp add: e_def t_def)
  have v: "v = t * 2 powi e" by (simp add: t_def)
  have "p - v = (of_int (rne t) - t) * 2 powi e" unfolding p by (subst v) (simp add: algebra_simps)
  then have "\<bar>p - v\<bar> = \<bar>of_int (rne t) - t\<bar> * 2 powi e" by (simp add: abs_mult)
  also have "\<dots> \<le> 1 / 2 * 2 powi e" using rne_error[of t] pe by (intro mult_right_mono) simp_all
  finally show ?thesis by (simp add: e_def)
qed

lemma rne_multiple:
  assumes "e \<le> j"
  shows "rne (of_int k * 2 powi j / 2 powi e) = k * 2 ^ nat (j - e)"
proof -
  define d where "d = nat (j - e)"
  have jd: "j = e + int d" using assms by (simp add: d_def)
  have pw: "(2::rat) powi j = 2 ^ d * 2 powi e" unfolding jd by (simp add: power_int_add)
  have "of_int k * 2 powi j / 2 powi e = (of_int (k * 2 ^ d) :: rat)" unfolding pw by simp
  then show ?thesis unfolding d_def[symmetric] by (simp only: rne_of_int)
qed

lemma multiple_back:
  assumes "e \<le> j"
  shows "of_int (k * 2 ^ nat (j - e)) * 2 powi e = (of_int k * 2 powi j :: rat)"
proof -
  define d where "d = nat (j - e)"
  have jd: "j = e + int d" using assms by (simp add: d_def)
  have pw: "(2::rat) powi j = 2 ^ d * 2 powi e" unfolding jd by (simp add: power_int_add)
  show ?thesis unfolding d_def[symmetric] pw by simp
qed

text \<open>
  The relative error is at most \<open>2^-53\<close> in the normal range, and also for a multiple of
  \<open>2^-1074\<close>, which is exact in the subnormal range.
\<close>

lemma fl_rel_error_normal:
  fixes v :: rat
  assumes "fl v = Fin p" and "v \<noteq> 0" and "- 1022 \<le> ilog2 v"
  shows "\<bar>p - v\<bar> \<le> \<bar>v\<bar> / 2 ^ 53"
proof -
  have e: "max (ilog2 v - 52) (- 1074) = ilog2 v - 52" using assms(3) by simp
  have "\<bar>p - v\<bar> \<le> 2 powi (ilog2 v - 52) / 2" using fl_abs_error[OF assms(1)] unfolding e .
  also have "\<dots> = 2 powi (ilog2 v) / 2 ^ 53"
    by (simp add: power_int_diff)
  also have "\<dots> \<le> \<bar>v\<bar> / 2 ^ 53"
    using ilog2_bounds(1)[OF assms(2)] by (simp add: divide_right_mono)
  finally show ?thesis .
qed

lemma fl_rel_error_multiple:
  fixes v :: rat
  assumes "fl v = Fin p" and "v = of_int k * 2 powi j" and "- 1074 \<le> j"
  shows "\<bar>p - v\<bar> \<le> \<bar>v\<bar> / 2 ^ 53"
proof (cases "v = 0")
  case True
  then show ?thesis using assms(1) by (simp add: fl_def)
next
  case False
  show ?thesis
  proof (cases "- 1022 \<le> ilog2 v")
    case True
    then show ?thesis using assms(1) False by (intro fl_rel_error_normal)
  next
    case sub: False
    then have e: "max (ilog2 v - 52) (- 1074) = - 1074" by simp
    have "p = of_int (rne (of_int k * 2 powi j / 2 powi (- 1074))) * 2 powi (- 1074)"
      using fl_Fin[OF assms(1)] unfolding e unfolding assms(2) .
    also have "\<dots> = v"
      unfolding assms(2) using assms(3) by (simp only: rne_multiple multiple_back)
    finally show ?thesis by simp
  qed
qed

text \<open>Rounding does not cross an integer of the safe range.\<close>

lemma fl_ge_int:
  fixes v :: rat
  assumes "fl v = Fin p" and "\<bar>v\<bar> < 2 ^ 53" and "of_int n \<le> v"
  shows "of_int n \<le> p"
proof (cases "v = 0")
  case True
  then show ?thesis using assms by (simp add: fl_def)
next
  case False
  define e where "e = max (ilog2 v - 52) (- 1074)"
  have e: "e \<le> 0" using fl_small(1)[OF False assms(2)] by (simp add: e_def)
  define d where "d = nat (- e)"
  have ed: "e = - int d" using e by (simp add: d_def)
  have pw: "(2::rat) powi e = 1 / 2 ^ d" unfolding ed by (simp add: power_int_minus_divide)
  have p: "p = of_int (rne (v / 2 powi e)) * 2 powi e" using fl_Fin[OF assms(1)] by (simp add: e_def)
  have "of_int (n * 2 ^ d) \<le> v / 2 powi e"
    unfolding pw using assms(3) by (simp add: mult_right_mono)
  then have "n * 2 ^ d \<le> rne (v / 2 powi e)" by (rule rne_ge_int)
  then have "(of_int (n * 2 ^ d) :: rat) \<le> of_int (rne (v / 2 powi e))" by (simp only: of_int_le_iff)
  then have A: "of_int (n * 2 ^ d) * 2 powi e \<le> of_int (rne (v / 2 powi e)) * (2::rat) powi e"
    by (intro mult_right_mono) simp_all
  have B: "of_int (n * 2 ^ d) * 2 powi e = (of_int n :: rat)" unfolding pw by simp
  from A have "of_int n \<le> of_int (rne (v / 2 powi e)) * (2::rat) powi e" unfolding B .
  then show ?thesis unfolding p .
qed

lemma fl_nonneg:
  fixes v :: rat
  assumes "fl v = Fin p" and "0 \<le> v"
  shows "0 \<le> p"
proof -
  have "0 \<le> rne (v / 2 powi max (ilog2 v - 52) (- 1074))"
    using assms(2) by (intro rne_ge_int) simp
  then show ?thesis unfolding fl_Fin[OF assms(1)] by simp
qed

text \<open>The largest representable number below one is \<open>1 - 2^-53\<close>.\<close>

lemma representable_below_one:
  fixes u :: rat
  assumes "fl u = Fin u" and "0 < u" and "u < 1"
  shows "u \<le> 1 - 1 / 2 ^ 53"
proof -
  have u0: "u \<noteq> 0" using assms(2) by simp
  have "\<bar>u\<bar> < 2 powi 0" using assms(2,3) by simp
  then have L: "ilog2 u < 0" using u0 by (intro ilog2_less)
  show ?thesis
  proof (cases "ilog2 u = - 1")
    case True
    then have e: "max (ilog2 u - 52) (- 1074) = - 53" by simp
    define m where "m = rne (u / 2 powi (- 53))"
    have "u = of_int m * 2 powi (- 53)"
      using fl_Fin[OF assms(1)] unfolding e m_def[symmetric] .
    also have "\<dots> = of_int m / 2 ^ 53" by (simp add: power_int_minus_divide)
    finally have um: "u = of_int m / 2 ^ 53" .
    have "of_int m < (2 ^ 53 :: rat)" using assms(3) unfolding um by (simp add: pos_divide_less_eq)
    then have "(of_int m :: rat) < of_int (2 ^ 53)" by simp
    then have "m < 2 ^ 53" by (simp only: of_int_less_iff)
    then have "m \<le> 2 ^ 53 - 1" by simp
    then have "(of_int m :: rat) \<le> of_int (2 ^ 53 - 1)" by (simp only: of_int_le_iff)
    then have "(of_int m :: rat) \<le> 2 ^ 53 - 1" by simp
    then have "of_int m / 2 ^ 53 \<le> (2 ^ 53 - 1) / (2 ^ 53 :: rat)" by (intro divide_right_mono) simp_all
    then show ?thesis unfolding um by (simp add: diff_divide_distrib)
  next
    case False
    then have "ilog2 u + 1 \<le> - 1" using L by simp
    then have "(2::rat) powi (ilog2 u + 1) \<le> 2 powi (- 1)" by (intro power_int_increasing) simp_all
    with ilog2_bounds(2)[OF u0] have "\<bar>u\<bar> < 2 powi (- 1)" by (rule less_le_trans)
    then have "u < 1 / 2" by (simp add: power_int_minus_divide)
    then show ?thesis by simp
  qed
qed

text \<open>
  \<open>Math.floor(Math.random() * n)\<close> is an index below \<open>n\<close>: the product of a number
  \<open>u \<le> 1 - 2^-53\<close> and \<open>n\<close> is rounded to less than \<open>n\<close>.
\<close>

lemma random_index_in_range:
  fixes u :: rat
  assumes "fl u = Fin u" and "0 \<le> u" and "u < 1" and "0 < n" and "n < 2 ^ 53"
  shows "\<exists>i. js_floor (js_mul (Fin u) (num n)) = Fin (of_int i) \<and> 0 \<le> i \<and> i < n"
proof (cases "u = 0")
  case True
  then show ?thesis using assms(4) by (intro exI[of _ 0]) (simp add: js_mul_def num_def fl_def js_floor_def)
next
  case False
  then have u0: "0 < u" using assms(2) by simp
  have nr: "(0::rat) < of_int n" using assms(4) by simp
  define v where "v = u * of_int n"
  have v0: "0 < v" using u0 nr by (simp add: v_def)
  have vn: "v \<le> (1 - 1 / 2 ^ 53) * of_int n"
    unfolding v_def using representable_below_one[OF assms(1) u0 assms(3)] nr
    by (intro mult_right_mono) simp_all
  have "(of_int n :: rat) < of_int (2 ^ 53)" using assms(5) by (simp only: of_int_less_iff)
  then have n53: "(of_int n :: rat) < 2 ^ 53" by simp
  have "v < of_int n" unfolding v_def using assms(3) nr by simp
  then have v53: "\<bar>v\<bar> < 2 ^ 53" using v0 n53 by simp
  obtain p where p: "fl v = Fin p" using fl_small(2)[of v] v0 v53 by auto
  obtain m e where me: "u = of_int m * 2 powi e" "- 1074 \<le> e" using fl_form[OF assms(1)] by blast
  have "v = of_int (m * n) * 2 powi e" by (simp add: v_def me(1))
  from fl_rel_error_multiple[OF p this me(2)]
  have "\<bar>p - v\<bar> \<le> v / 2 ^ 53" using v0 by simp
  then have "p - v \<le> v / 2 ^ 53" by (simp only: abs_le_iff)
  then have "p \<le> v * (1 + 1 / 2 ^ 53)" by (simp add: algebra_simps)
  also have "\<dots> \<le> ((1 - 1 / 2 ^ 53) * of_int n) * (1 + 1 / 2 ^ 53)"
    using vn by (intro mult_right_mono) simp_all
  also have "\<dots> = of_int n * ((1 - 1 / 2 ^ 53) * (1 + 1 / 2 ^ 53))" by (simp add: algebra_simps)
  also have "\<dots> < of_int n * 1" using nr by (intro mult_strict_left_mono) simp_all
  finally have pn: "p < of_int n" by simp
  have p0: "0 \<le> p" using p by (rule fl_nonneg) (simp add: less_imp_le[OF v0])
  have "\<lfloor>p\<rfloor> < n" using pn by (simp add: floor_less_iff)
  moreover have "0 \<le> \<lfloor>p\<rfloor>" using p0 by simp
  moreover have "js_floor (js_mul (Fin u) (num n)) = Fin (of_int \<lfloor>p\<rfloor>)"
    using p by (simp add: js_mul_def num_def js_floor_def v_def)
  ultimately show ?thesis by blast
qed

section \<open>Display state and selected position\<close>

text \<open>
  C6. \<open>getDotDisplayState\<close> is a function of the snapshot (\<open>hoveredDot\<close>, \<open>selectedDot\<close>,
  \<open>rippleDot\<close>, \<open>randomDot\<close>, the viewport width) and the dot id only: two states that agree
  on these four fields give equal results, whatever their other fields are. The six flags
  are \<open>isHovered = (hoveredDot = id)\<close>, \<open>isRippling = (rippleDot = id)\<close>,
  \<open>isRandomlySelected = (randomDot = id)\<close>, \<open>isSelected = (selectedDot \<noteq> null)\<close>,
  \<open>isClickedDot = (selectedDot = id)\<close> and \<open>shouldHide\<close>, which holds exactly when the
  viewport is narrower than 1024, a dot is selected and it is not this one.
\<close>

theorem getDotDisplayState_pure:
  "(hoveredDot s = hoveredDot s' \<and> selectedDot s = selectedDot s' \<and>
    rippleDot s = rippleDot s' \<and> randomDot s = randomDot s'
      \<longrightarrow> getDotDisplayState w s d = getDotDisplayState w s' d)
   \<and> isHovered (getDotDisplayState w s d) = (hoveredDot s = Some d)
   \<and> isRippling (getDotDisplayState w s d) = (rippleDot s = Some d)
   \<and> isRandomlySelected (getDotDisplayState w s d) = (randomDot s = Some d)
   \<and> isSelected (getDotDisplayState w s d) = (selectedDot s \<noteq> None)
   \<and> isClickedDot (getDotDisplayState w s d) = (selectedDot s = Some d)
   \<and> shouldHide (getDotDisplayState w s d) =
       ((\<exists>n. w = Some n \<and> n < 1024) \<and> isSelected (getDotDisplayState w s d)
        \<and> \<not> isClickedDot (getDotDisplayState w s d))"
  by (cases w) (simp_all add: getDotDisplayState_def Let_def)

theorem getDotDisplayState_pure_witness:
  "getDotDisplayState (Some 800) (initialState\<lparr>selectedDot := Some ''1-1'', nextHandle := 7\<rparr>) ''1-2''
     = getDotDisplayState (Some 800)
         (initialState\<lparr>selectedDot := Some ''1-1'', selectedContent := Some ''About''\<rparr>) ''1-2''
   \<and> shouldHide (getDotDisplayState (Some 800)
         (initialState\<lparr>selectedDot := Some ''1-1'', nextHandle := 7\<rparr>) ''1-2'')"
  using getDotDisplayState_pure
    [of "initialState\<lparr>selectedDot := Some ''1-1'', nextHandle := 7\<rparr>"
        "initialState\<lparr>selectedDot := Some ''1-1'', selectedContent := Some ''About''\<rparr>"
        "Some 800" "''1-2''"]
  by (simp add: initialState_def getDotDisplayState_def Let_def)


section \<open>The selected position never fails\<close>

lemma parseIntCore_Nil: "parseIntCore R [] = None"
  by (simp add: parseIntCore_def)




section \<open>The ripple walk\<close>

lemma gridIds5:
  "gridIds 5 =
     [''0-0'', ''0-1'', ''0-2'', ''0-3'', ''0-4'', ''1-0'', ''1-1'', ''1-2'', ''1-3'', ''1-4'',
      ''2-0'', ''2-1'', ''2-2'', ''2-3'', ''2-4'', ''3-0'', ''3-1'', ''3-2'', ''3-3'', ''3-4'',
      ''4-0'', ''4-1'', ''4-2'', ''4-3'', ''4-4'']"
  by code_simp

lemma ripple_next_table:
  "\<forall>i \<in> set [0..<24]. getNextRipplePosition 5 (Some (gridIds 5 ! i)) = Some (gridIds 5 ! Suc i)"
  by code_simp

lemma ripple_next_last: "getNextRipplePosition 5 (Some (gridIds 5 ! 24)) = None"
  by code_simp

lemma ripple_next:
  "i < 24 \<Longrightarrow> getNextRipplePosition 5 (Some (gridIds 5 ! i)) = Some (gridIds 5 ! Suc i)"
  using ripple_next_table by simp

lemma map_of_clearTimer: "map_of (timers (clearTimer h s)) h = None"
  by (simp add: clearTimer_def map_of_eq_None_iff image_iff)

lemma fire_not_pending: "map_of (timers s) h = None \<Longrightarrow> fire cfg u1 u2 h s = Some s"
  by (simp add: fire_def)

lemma fireTimes_not_pending: "map_of (timers s) h = None \<Longrightarrow> fireTimes cfg u1 u2 h n s = Some s"
  by (induction n) (simp_all add: fire_not_pending)

lemma fire_ripple_step:
  assumes "cols cfg = 5" "map_of (timers s) h = Some RippleTick"
    "rippleDot s = Some (gridIds 5 ! i)" "i < 24"
  shows "fire cfg u1 u2 h s = Some (s\<lparr>rippleDot := Some (gridIds 5 ! Suc i)\<rparr>)"
  using assms by (simp add: fire_def rippleTick_def ripple_next)

lemma fire_ripple_last:
  assumes "cols cfg = 5" "map_of (timers s) h = Some RippleTick"
    "rippleDot s = Some (gridIds 5 ! 24)" "rippleIntervalRef s = Some h"
  shows "fire cfg u1 u2 h s =
           Some ((clearTimer h s)\<lparr>rippleIntervalRef := None, rippleDot := None, isAnimatingRef := False\<rparr>)"
  using assms by (simp add: fire_def rippleTick_def ripple_next_last)

lemma fireTimes_ripple_prefix:
  assumes "cols cfg = 5" "map_of (timers s) h = Some RippleTick"
  shows "rippleDot s = Some (gridIds 5 ! i) \<Longrightarrow> i + k \<le> 24 \<Longrightarrow>
         fireTimes cfg u1 u2 h k s = Some (s\<lparr>rippleDot := Some (gridIds 5 ! (i + k))\<rparr>)"
  using assms(2)
proof (induction k arbitrary: i s)
  case 0
  then show ?case by simp
next
  case (Suc k)
  have st: "fire cfg u1 u2 h s = Some (s\<lparr>rippleDot := Some (gridIds 5 ! Suc i)\<rparr>)"
    using Suc.prems assms(1) by (intro fire_ripple_step) auto
  have "fireTimes cfg u1 u2 h k (s\<lparr>rippleDot := Some (gridIds 5 ! Suc i)\<rparr>) =
          Some (s\<lparr>rippleDot := Some (gridIds 5 ! Suc i)\<rparr>\<lparr>rippleDot := Some (gridIds 5 ! (Suc i + k))\<rparr>)"
    using Suc.prems by (intro Suc.IH) auto
  then show ?case by (simp add: st)
qed

lemma fireTimes_add:
  "fireTimes cfg u1 u2 h (m + n) s =
     (case fireTimes cfg u1 u2 h m s of None \<Rightarrow> None | Some s' \<Rightarrow> fireTimes cfg u1 u2 h n s')"
  by (induction m arbitrary: s) (simp_all split: option.splits)

text \<open>
  C3. With five columns, from a state in which the ripple interval is pending and
  \<open>rippleDot\<close> is \<open>0-0\<close>, the successive ticks of the interval show the 25 cell ids in
  row-major order: after column 4 comes column 0 of the next row. The tick after \<open>4-4\<close>
  sets \<open>rippleDot\<close> to null, clears the interval and ends the animation, so that every
  later state has \<open>rippleDot\<close> null: there is one transition to null and none back.
\<close>

theorem ripple_row_major:
  assumes "cols cfg = 5" and "rippleDot s = Some ''0-0''"
    and "rippleIntervalRef s = Some h" and "map_of (timers s) h = Some RippleTick"
  shows "map (\<lambda>k. map_option rippleDot (fireTimes cfg u1 u2 h k s)) [0..<25] =
           map (\<lambda>d. Some (Some d))
             [''0-0'', ''0-1'', ''0-2'', ''0-3'', ''0-4'', ''1-0'', ''1-1'', ''1-2'', ''1-3'', ''1-4'',
              ''2-0'', ''2-1'', ''2-2'', ''2-3'', ''2-4'', ''3-0'', ''3-1'', ''3-2'', ''3-3'', ''3-4'',
              ''4-0'', ''4-1'', ''4-2'', ''4-3'', ''4-4'']
         \<and> (\<forall>k\<ge>25. \<exists>s'. fireTimes cfg u1 u2 h k s = Some s' \<and> rippleDot s' = None
                 \<and> rippleIntervalRef s' = None \<and> map_of (timers s') h = None
                 \<and> \<not> isAnimatingRef s')"
proof
  have len: "length (gridIds 5) = 25" by (simp add: gridIds5)
  have r0: "rippleDot s = Some (gridIds 5 ! 0)" using assms(2) by (simp add: gridIds5)
  have pre: "fireTimes cfg u1 u2 h k s = Some (s\<lparr>rippleDot := Some (gridIds 5 ! k)\<rparr>)"
    if "k \<le> 24" for k
    using fireTimes_ripple_prefix[OF assms(1) assms(4) r0, of k] that by simp
  have "map (\<lambda>k. map_option rippleDot (fireTimes cfg u1 u2 h k s)) [0..<25] =
          map (\<lambda>k. Some (Some (gridIds 5 ! k))) [0..<25]"
    by (rule map_cong) (simp_all add: pre)
  also have "\<dots> = map (\<lambda>d. Some (Some d)) (map ((!) (gridIds 5)) [0..<length (gridIds 5)])"
    by (simp only: len map_map comp_def)
  also have "\<dots> = map (\<lambda>d. Some (Some d)) (gridIds 5)"
    by (simp only: map_nth)
  finally show "map (\<lambda>k. map_option rippleDot (fireTimes cfg u1 u2 h k s)) [0..<25] =
           map (\<lambda>d. Some (Some d))
             [''0-0'', ''0-1'', ''0-2'', ''0-3'', ''0-4'', ''1-0'', ''1-1'', ''1-2'', ''1-3'', ''1-4'',
              ''2-0'', ''2-1'', ''2-2'', ''2-3'', ''2-4'', ''3-0'', ''3-1'', ''3-2'', ''3-3'', ''3-4'',
              ''4-0'', ''4-1'', ''4-2'', ''4-3'', ''4-4'']"
    by (simp only: gridIds5)
  define s24 where "s24 = s\<lparr>rippleDot := Some (gridIds 5 ! 24)\<rparr>"
  define fin where
    "fin = (clearTimer h s24)\<lparr>rippleIntervalRef := None, rippleDot := None, isAnimatingRef := False\<rparr>"
  have f24: "fireTimes cfg u1 u2 h 24 s = Some s24"
    using pre[of 24] by (simp add: s24_def)
  have last: "fire cfg u1 u2 h s24 = Some fin"
    unfolding fin_def using assms by (intro fire_ripple_last) (simp_all add: s24_def)
  have gone: "map_of (timers fin) h = None"
    using map_of_clearTimer[of h s24] by (simp add: fin_def)
  show "\<forall>k\<ge>25. \<exists>s'. fireTimes cfg u1 u2 h k s = Some s' \<and> rippleDot s' = None
                 \<and> rippleIntervalRef s' = None \<and> map_of (timers s') h = None
                 \<and> \<not> isAnimatingRef s'"
  proof (intro allI impI)
    fix k :: nat
    assume "25 \<le> k"
    define m where "m = k - 25"
    have k: "k = 24 + Suc m" using \<open>25 \<le> k\<close> by (simp add: m_def)
    have "fireTimes cfg u1 u2 h k s = Some fin"
      unfolding k fireTimes_add by (simp add: f24 last fireTimes_not_pending[OF gone])
    moreover have "rippleDot fin = None" "rippleIntervalRef fin = None" "\<not> isAnimatingRef fin"
      by (simp_all add: fin_def)
    ultimately show "\<exists>s'. fireTimes cfg u1 u2 h k s = Some s' \<and> rippleDot s' = None
                 \<and> rippleIntervalRef s' = None \<and> map_of (timers s') h = None
                 \<and> \<not> isAnimatingRef s'"
      using gone by simp
  qed
qed

theorem ripple_row_major_witness:
  "map (\<lambda>k. map_option rippleDot
                (fireTimes DEFAULT_CONFIG 0 0 1 k (runRippleAnimation None initialState))) [0..<25] =
     map (\<lambda>d. Some (Some d))
       [''0-0'', ''0-1'', ''0-2'', ''0-3'', ''0-4'', ''1-0'', ''1-1'', ''1-2'', ''1-3'', ''1-4'',
        ''2-0'', ''2-1'', ''2-2'', ''2-3'', ''2-4'', ''3-0'', ''3-1'', ''3-2'', ''3-3'', ''3-4'',
        ''4-0'', ''4-1'', ''4-2'', ''4-3'', ''4-4'']
   \<and> (\<exists>s'. fireTimes DEFAULT_CONFIG 0 0 1 30 (runRippleAnimation None initialState) = Some s'
             \<and> rippleDot s' = None \<and> rippleIntervalRef s' = None
             \<and> map_of (timers s') 1 = None \<and> \<not> isAnimatingRef s')"
proof -
  let ?s = "runRippleAnimation None initialState"
  have a: "cols DEFAULT_CONFIG = 5" by (simp add: DEFAULT_CONFIG_def)
  have b: "rippleDot ?s = Some ''0-0''"
    by (simp add: runRippleAnimation_def initialState_def setTimer_def truthy_def)
  have c: "rippleIntervalRef ?s = Some 1"
    by (simp add: runRippleAnimation_def initialState_def setTimer_def truthy_def)
  have d: "map_of (timers ?s) 1 = Some RippleTick"
    by (simp add: runRippleAnimation_def initialState_def setTimer_def truthy_def)
  note t = ripple_row_major [OF a b c d, of 0 0]
  have "(25::nat) \<le> 30" by simp
  with t show ?thesis by blast
qed


section \<open>Clicking a dot and closing the card\<close>

lemma clearAllAnimations_fields:
  "rippleDot (clearAllAnimations s) = None \<and> randomDot (clearAllAnimations s) = None
   \<and> inactivityTimer (clearAllAnimations s) = None
   \<and> rippleIntervalRef (clearAllAnimations s) = None
   \<and> randomIntervalRef (clearAllAnimations s) = None
   \<and> \<not> isAnimatingRef (clearAllAnimations s)
   \<and> selectedDot (clearAllAnimations s) = selectedDot s
   \<and> selectedContent (clearAllAnimations s) = selectedContent s
   \<and> isContentExpanded (clearAllAnimations s) = isContentExpanded s
   \<and> hoveredDot (clearAllAnimations s) = hoveredDot s
   \<and> navLog (clearAllAnimations s) = navLog s"
  by (simp add: clearAllAnimations_def clearTimer_def Let_def split: option.splits)

lemma clearAllAnimations_timers:
  "timers (clearAllAnimations s) =
     filter (\<lambda>e. Some (fst e) \<noteq> rippleIntervalRef s \<and> Some (fst e) \<noteq> randomIntervalRef s
                  \<and> Some (fst e) \<noteq> inactivityTimer s) (timers s)"
  by (auto simp add: clearAllAnimations_def clearTimer_def Let_def split: option.splits
      intro!: filter_cong)

text \<open>
  What \<open>handleDotClick\<close> does in every state: the selection is set, both animation dots are
  null, the three handles are null, and the timers those handles named are no longer
  pending. A pending timer whose handle was in none of the three refs stays pending.
\<close>

lemma handleDotClick_state:
  "selectedDot (handleDotClick d k s) = Some d \<and> selectedContent (handleDotClick d k s) = Some k
   \<and> rippleDot (handleDotClick d k s) = None \<and> randomDot (handleDotClick d k s) = None
   \<and> inactivityTimer (handleDotClick d k s) = None
   \<and> rippleIntervalRef (handleDotClick d k s) = None
   \<and> randomIntervalRef (handleDotClick d k s) = None
   \<and> \<not> isAnimatingRef (handleDotClick d k s)
   \<and> timers (handleDotClick d k s) =
       filter (\<lambda>e. Some (fst e) \<noteq> rippleIntervalRef s \<and> Some (fst e) \<noteq> randomIntervalRef s
                    \<and> Some (fst e) \<noteq> inactivityTimer s) (timers s)"
  by (simp add: handleDotClick_def clearAllAnimations_fields clearAllAnimations_timers)

text \<open>
  C1. In the run \<open>clickDuringRandomPause\<close> the state right after \<open>handleDotClick\<close> has
  \<open>selectedDot = 2-0\<close>, \<open>selectedContent = About\<close>, \<open>rippleDot\<close> and \<open>randomDot\<close> null and
  the three timer handles null, but the pick scheduled by the random interval is still
  pending (handle 3). When it fires, \<open>randomDot\<close> becomes \<open>0-1\<close>, the used-set grows and the
  animation count goes from 1 to 2, while the dot \<open>2-0\<close> is selected: the pending callback
  is not a no-op.
\<close>

theorem handleDotClick_pending_pick_fires:
  "clickDuringRandomPause =
     Some
      (\<lparr>hoveredDot = None, selectedDot = Some ''2-0'', selectedContent = Some ''About'',
        rippleDot = None, randomDot = None, isContentExpanded = False,
        inactivityTimer = None, rippleIntervalRef = None, randomIntervalRef = None,
        isAnimatingRef = False, usedDotsRef = [''0-0''], animationCountRef = 1,
        timers = [(3, RandomPick)], nextHandle = 4, navLog = []\<rparr>,
       \<lparr>hoveredDot = None, selectedDot = Some ''2-0'', selectedContent = Some ''About'',
        rippleDot = None, randomDot = Some ''0-1'', isContentExpanded = False,
        inactivityTimer = None, rippleIntervalRef = None, randomIntervalRef = None,
        isAnimatingRef = False, usedDotsRef = [''0-0'', ''0-1''], animationCountRef = 2,
        timers = [], nextHandle = 4, navLog = []\<rparr>)"
  by code_simp

lemma resetInactivityTimer_stale:
  assumes "truthy sel"
  shows "resetInactivityTimer sel s =
           (case inactivityTimer s of Some h \<Rightarrow> clearTimer h s | None \<Rightarrow> s)"
  using assms by (simp add: resetInactivityTimer_def Let_def)

text \<open>
  What \<open>handleClose\<close> does when a dot is selected: the selection and the expansion flag
  are reset and the route \<open>/\<close> is pushed, but \<open>resetInactivityTimer\<close> sees the
  \<open>selectedDot\<close> of the render with the open card, so it only clears the old timeout and
  sets none: no handle is allocated and no timer is added.
\<close>

lemma handleClose_selected:
  assumes "selectedDot s = Some d" and "d \<noteq> []"
  shows "selectedDot (handleClose s) = None \<and> selectedContent (handleClose s) = None
         \<and> \<not> isContentExpanded (handleClose s)
         \<and> timers (handleClose s) = filter (\<lambda>e. Some (fst e) \<noteq> inactivityTimer s) (timers s)
         \<and> nextHandle (handleClose s) = nextHandle s
         \<and> inactivityTimer (handleClose s) = inactivityTimer s"
proof -
  have t: "truthy (selectedDot s)" using assms by (simp add: truthy_def)
  show ?thesis
    unfolding handleClose_def resetInactivityTimer_stale[OF t]
    by (auto simp add: clearTimer_def split: option.splits intro!: filter_cong)
qed

text \<open>With nothing selected and no animation running, the same call does arm the timeout.\<close>

lemma handleClose_unselected:
  assumes "selectedDot s = None" and "\<not> isAnimatingRef s"
  shows "inactivityTimer (handleClose s) = Some (nextHandle s)
         \<and> (nextHandle s, InactivityCb None) \<in> set (timers (handleClose s))"
  using assms
  by (simp add: handleClose_def resetInactivityTimer_def truthy_def setTimer_def clearTimer_def
      Let_def split: option.splits)

text \<open>
  C2. After mount, a click on the dot \<open>2-0\<close> and then \<open>handleClose\<close>: \<open>selectedDot\<close>,
  \<open>selectedContent\<close> and \<open>isContentExpanded\<close> are back to null, null and false and the
  route \<open>/\<close> is pushed, but the inactivity timer is not armed: no timer is pending, so no
  idle period starts an animation again.
\<close>

theorem handleClose_does_not_rearm:
  "handleClose (handleDotClick ''2-0'' ''About'' (mount [] None)) =
     \<lparr>hoveredDot = None, selectedDot = None, selectedContent = None,
      rippleDot = None, randomDot = None, isContentExpanded = False,
      inactivityTimer = None, rippleIntervalRef = None, randomIntervalRef = None,
      isAnimatingRef = False, usedDotsRef = [], animationCountRef = 0,
      timers = [], nextHandle = 2, navLog = [RouterPush ''/'']\<rparr>"
  by code_simp


section \<open>Clicking an artist dot\<close>

lemma replaceRuns_chars:
  "c \<in> set (replaceRuns b t) \<Longrightarrow> isSlugChar c \<or> c = CHR ''-''"
  by (induction t arbitrary: b) (auto split: if_splits)

lemma replaceRuns_inRun_start:
  "replaceRuns True t = [] \<or> hd (replaceRuns True t) \<noteq> CHR ''-''"
  by (induction t) (auto simp: isSlugChar_def)

lemma hyphen_not_slugChar: "\<not> isSlugChar CHR ''-''"
  by (simp add: isSlugChar_def)

lemma noDoubleHyphen_Cons:
  "noDoubleHyphen (a # t) \<longleftrightarrow> (t = [] \<or> (\<not> (a = CHR ''-'' \<and> hd t = CHR ''-'') \<and> noDoubleHyphen t))"
  by (cases t) auto

lemma replaceRuns_noDouble: "noDoubleHyphen (replaceRuns b t)"
proof (induction t arbitrary: b)
  case Nil
  then show ?case by simp
next
  case (Cons c t)
  show ?case
    using Cons.IH[of True] Cons.IH[of False] replaceRuns_inRun_start[of t] hyphen_not_slugChar
    by (auto simp: noDoubleHyphen_Cons)
qed

lemma noDoubleHyphen_append: "noDoubleHyphen (u @ v) \<Longrightarrow> noDoubleHyphen u \<and> noDoubleHyphen v"
  by (induction u rule: noDoubleHyphen.induct) (auto simp: noDoubleHyphen_Cons)

lemma noDoubleHyphen_dropWhile: "noDoubleHyphen t \<Longrightarrow> noDoubleHyphen (dropWhile P t)"
  using noDoubleHyphen_append[of "takeWhile P t" "dropWhile P t"] by simp

lemma noDoubleHyphen_snoc:
  "noDoubleHyphen (u @ [a]) \<longleftrightarrow>
     (u = [] \<or> (\<not> (last u = CHR ''-'' \<and> a = CHR ''-'') \<and> noDoubleHyphen u))"
  by (induction u rule: noDoubleHyphen.induct) auto

lemma noDoubleHyphen_rev: "noDoubleHyphen (rev t) = noDoubleHyphen t"
  by (induction t) (auto simp: noDoubleHyphen_snoc noDoubleHyphen_Cons last_rev)

lemma trimHyphens_noDouble: "noDoubleHyphen t \<Longrightarrow> noDoubleHyphen (trimHyphens t)"
  by (simp add: trimHyphens_def noDoubleHyphen_rev noDoubleHyphen_dropWhile)

lemma last_dropWhile_eq: "dropWhile P t \<noteq> [] \<Longrightarrow> last (dropWhile P t) = last t"
  using last_append[of "takeWhile P t" "dropWhile P t"] by (auto split: if_splits)

lemma trimHyphens_ends:
  "trimHyphens t = [] \<or> (hd (trimHyphens t) \<noteq> CHR ''-'' \<and> last (trimHyphens t) \<noteq> CHR ''-'')"
proof (cases "trimHyphens t = []")
  case True
  then show ?thesis by simp
next
  case False
  define u where "u = dropWhile (\<lambda>c. c = CHR ''-'') t"
  define w where "w = dropWhile (\<lambda>c. c = CHR ''-'') (rev u)"
  have tw: "trimHyphens t = rev w" by (simp add: trimHyphens_def u_def w_def)
  have w: "w \<noteq> []" using False tw by simp
  then have u: "u \<noteq> []" by (auto simp: w_def)
  have "hd w \<noteq> CHR ''-''" using w hd_dropWhile[of "\<lambda>c. c = CHR ''-''" "rev u"] by (simp add: w_def)
  then have l: "last (rev w) \<noteq> CHR ''-''" using w by (simp add: last_rev)
  have "last w = last (rev u)" using w unfolding w_def by (rule last_dropWhile_eq)
  also have "\<dots> = hd u" using u by (simp add: last_rev)
  finally have "hd (rev w) = hd u" using w by (simp add: hd_rev)
  moreover have "hd u \<noteq> CHR ''-''"
    using u hd_dropWhile[of "\<lambda>c. c = CHR ''-''" t] by (simp add: u_def)
  ultimately show ?thesis using l tw by simp
qed

lemma trimHyphens_set: "set (trimHyphens t) \<subseteq> set t"
  by (auto simp: trimHyphens_def dest!: set_dropWhileD)

lemma filter_dropWhile_hyphen:
  "filter isSlugChar (dropWhile (\<lambda>c. c = CHR ''-'') t) = filter isSlugChar t"
  by (induction t) (auto simp: hyphen_not_slugChar)

lemma filter_trimHyphens: "filter isSlugChar (trimHyphens t) = filter isSlugChar t"
  by (simp add: trimHyphens_def rev_filter[symmetric] filter_dropWhile_hyphen)

lemma filter_replaceRuns: "filter isSlugChar (replaceRuns b t) = filter isSlugChar t"
  by (induction t arbitrary: b) (auto simp: hyphen_not_slugChar)

text \<open>
  The shape of a slug: only characters of \<open>[a-z0-9]\<close> and hyphens, no hyphen at either end,
  no two hyphens in a row, and its letters and digits are those of the lower-cased name, in
  the same order.
\<close>

lemma artistSlugOf_shape:
  "(\<forall>c \<in> set (artistSlugOf n). isSlugChar c \<or> c = CHR ''-'')
   \<and> (artistSlugOf n = [] \<or>
        (hd (artistSlugOf n) \<noteq> CHR ''-'' \<and> last (artistSlugOf n) \<noteq> CHR ''-''))
   \<and> noDoubleHyphen (artistSlugOf n)
   \<and> filter isSlugChar (artistSlugOf n) = filter isSlugChar (toLowerCase n)"
  using trimHyphens_set[of "replaceRuns False (toLowerCase n)"]
    replaceRuns_chars[of _ False "toLowerCase n"]
    trimHyphens_ends[of "replaceRuns False (toLowerCase n)"]
  by (auto simp: artistSlugOf_def trimHyphens_noDouble replaceRuns_noDouble
      filter_trimHyphens filter_replaceRuns)

text \<open>
  The slug said with words. Replacing the runs and trimming the hyphens leaves the runs of
  \<open>[a-z0-9]\<close> as they are, and a string of the shape of a slug is its runs joined by
  single hyphens.
\<close>

lemma alnumRuns_replaceRuns:
  "(b \<longrightarrow> w = []) \<Longrightarrow> alnumRuns w (replaceRuns b t) = alnumRuns w t"
  by (induction t arbitrary: w b) (auto simp: hyphen_not_slugChar)

lemma alnumRuns_dropWhile_hyphen:
  "alnumRuns [] (dropWhile (\<lambda>c. c = CHR ''-'') t) = alnumRuns [] t"
  by (induction t) (auto simp: hyphen_not_slugChar)

lemma alnumRuns_trailing:
  "\<forall>c \<in> set zs. \<not> isSlugChar c \<Longrightarrow> alnumRuns w (ys @ zs) = alnumRuns w ys"
proof (induction ys arbitrary: w)
  case Nil
  then show ?case by (induction zs arbitrary: w) auto
next
  case (Cons a ys)
  then show ?case by simp
qed

lemma alnumRuns_trimHyphens: "alnumRuns [] (trimHyphens t) = alnumRuns [] t"
proof -
  define u where "u = dropWhile (\<lambda>c. c = CHR ''-'') t"
  have "rev u = takeWhile (\<lambda>c. c = CHR ''-'') (rev u) @ dropWhile (\<lambda>c. c = CHR ''-'') (rev u)"
    by simp
  then have "u = rev (dropWhile (\<lambda>c. c = CHR ''-'') (rev u)) @ rev (takeWhile (\<lambda>c. c = CHR ''-'') (rev u))"
    by (metis rev_append rev_rev_ident)
  moreover have "\<forall>c \<in> set (rev (takeWhile (\<lambda>c. c = CHR ''-'') (rev u))). \<not> isSlugChar c"
    by (auto dest!: set_takeWhileD simp: hyphen_not_slugChar)
  ultimately have "alnumRuns [] u = alnumRuns [] (rev (dropWhile (\<lambda>c. c = CHR ''-'') (rev u)))"
    using alnumRuns_trailing by metis
  then show ?thesis by (simp add: trimHyphens_def u_def[symmetric]) (simp add: u_def alnumRuns_dropWhile_hyphen)
qed

lemma alnumRuns_nonempty: "w \<noteq> [] \<Longrightarrow> alnumRuns w t \<noteq> []"
  by (induction t arbitrary: w) auto

lemma joinHyphen_Cons: "ws \<noteq> [] \<Longrightarrow> joinHyphen (w # ws) = w @ ''-'' @ joinHyphen ws"
  by (cases ws) simp_all

lemma joinHyphen_alnumRuns:
  assumes "\<forall>c \<in> set t. isSlugChar c \<or> c = CHR ''-''" and "noDoubleHyphen t"
    and "t \<noteq> [] \<longrightarrow> last t \<noteq> CHR ''-''" and "w = [] \<longrightarrow> t = [] \<or> hd t \<noteq> CHR ''-''"
  shows "joinHyphen (alnumRuns w t) = w @ t"
  using assms
proof (induction t arbitrary: w)
  case Nil
  then show ?case by simp
next
  case (Cons c cs)
  have chars: "\<forall>c \<in> set cs. isSlugChar c \<or> c = CHR ''-''" using Cons.prems(1) by simp
  have nd: "noDoubleHyphen cs" using Cons.prems(2) by (auto simp: noDoubleHyphen_Cons)
  have lst: "cs \<noteq> [] \<longrightarrow> last cs \<noteq> CHR ''-''" using Cons.prems(3) by auto
  show ?case
  proof (cases "isSlugChar c")
    case True
    have "joinHyphen (alnumRuns (w @ [c]) cs) = (w @ [c]) @ cs"
      using chars nd lst by (intro Cons.IH) simp_all
    then show ?thesis using True by simp
  next
    case False
    then have c: "c = CHR ''-''" using Cons.prems(1) by simp
    have w: "w \<noteq> []" using Cons.prems(4) c by auto
    have cs: "cs \<noteq> []" using Cons.prems(3) c by auto
    then obtain d ds where dds: "cs = d # ds" by (cases cs) auto
    have hd: "d \<noteq> CHR ''-''" using Cons.prems(2) c dds by simp
    then have d: "isSlugChar d" using chars dds by simp
    have ne: "alnumRuns [] cs \<noteq> []" using d dds by (simp add: alnumRuns_nonempty)
    have "joinHyphen (alnumRuns [] cs) = [] @ cs"
      using chars nd lst hd dds by (intro Cons.IH) simp_all
    then show ?thesis using False w ne c by (simp add: joinHyphen_Cons)
  qed
qed

lemma artistSlugOf_words: "artistSlugOf n = slugByWords n"
proof -
  have "joinHyphen (alnumRuns [] (artistSlugOf n)) = [] @ artistSlugOf n"
    using artistSlugOf_shape[of n] by (intro joinHyphen_alnumRuns) auto
  moreover have "alnumRuns [] (artistSlugOf n) = alnumRuns [] (toLowerCase n)"
    by (simp add: artistSlugOf_def alnumRuns_trimHyphens alnumRuns_replaceRuns)
  ultimately show ?thesis by (simp add: slugByWords_def)
qed

text \<open>
  C5 as stated fails. A click on a special link does more than navigate: it first cancels
  the idle animations and timers. Clicked while the ripple runs, the \<open>Subscribe\<close> dot hides
  the ripple dot and clears the ripple interval besides pushing the route; a special link of
  a type without an action, clicked in the state after mount, navigates nowhere and still
  clears the inactivity timeout. And a click on an ordinary artist sets \<open>selectedDot\<close> to
  the id passed, which the grid takes from the \<open>slug\<close> field of the record, not to the slug
  derived from the name; only \<open>selectedContent\<close> is the derived slug.
\<close>

theorem handleArtistDotClick_not_only_navigation:
  "fire DEFAULT_CONFIG 0 0 1 (mount [] None) =
     Some \<lparr>hoveredDot = None, selectedDot = None, selectedContent = None,
            rippleDot = Some ''0-0'', randomDot = None, isContentExpanded = False,
            inactivityTimer = Some 1, rippleIntervalRef = Some 2, randomIntervalRef = None,
            isAnimatingRef = True, usedDotsRef = [], animationCountRef = 0,
            timers = [(2, RippleTick)], nextHandle = 3, navLog = []\<rparr>
   \<and> map_option
        (handleArtistDotClick ''Subscribe''
           \<lparr>artistName = ''Subscribe'', slug = ''Subscribe'', isSpecialLink = Some True,
            linkType = Some ''subscribe'', url = Some ''/subscribe''\<rparr>)
        (fire DEFAULT_CONFIG 0 0 1 (mount [] None)) =
     Some \<lparr>hoveredDot = None, selectedDot = None, selectedContent = None,
            rippleDot = None, randomDot = None, isContentExpanded = False,
            inactivityTimer = None, rippleIntervalRef = None, randomIntervalRef = None,
            isAnimatingRef = False, usedDotsRef = [], animationCountRef = 0,
            timers = [], nextHandle = 3, navLog = [RouterPush ''/subscribe'']\<rparr>
   \<and> mount [] None =
       \<lparr>hoveredDot = None, selectedDot = None, selectedContent = None,
        rippleDot = None, randomDot = None, isContentExpanded = False,
        inactivityTimer = Some 1, rippleIntervalRef = None, randomIntervalRef = None,
        isAnimatingRef = False, usedDotsRef = [], animationCountRef = 0,
        timers = [(1, InactivityCb None)], nextHandle = 2, navLog = []\<rparr>
   \<and> handleArtistDotClick ''contact''
        \<lparr>artistName = ''Contact'', slug = ''contact'', isSpecialLink = Some True,
         linkType = Some ''mailto'', url = Some ''mailto:a@b.c''\<rparr> (mount [] None) =
       \<lparr>hoveredDot = None, selectedDot = None, selectedContent = None,
        rippleDot = None, randomDot = None, isContentExpanded = False,
        inactivityTimer = None, rippleIntervalRef = None, randomIntervalRef = None,
        isAnimatingRef = False, usedDotsRef = [], animationCountRef = 0,
        timers = [], nextHandle = 2, navLog = []\<rparr>
   \<and> handleArtistDotClick ''events-ancient-technology-jane-d-oh''
        \<lparr>artistName = ''Jane D'Oh!!'', slug = ''events-ancient-technology-jane-d-oh'',
         isSpecialLink = None, linkType = None, url = None\<rparr> (mount [] None) =
       \<lparr>hoveredDot = None, selectedDot = Some ''events-ancient-technology-jane-d-oh'',
        selectedContent = Some ''jane-d-oh'', rippleDot = None, randomDot = None,
        isContentExpanded = False, inactivityTimer = None, rippleIntervalRef = None,
        randomIntervalRef = None, isAnimatingRef = False, usedDotsRef = [],
        animationCountRef = 0, timers = [], nextHandle = 2,
        navLog = [RouterPush ''/events/ancient-technology/jane-d-oh'']\<rparr>"
  by code_simp

text \<open>
  C5, amended. \<open>handleArtistDotClick\<close> first cancels the idle animations and timers, as
  every click does. For a special-link record it then performs the link's action, if the
  link has one (\<open>subscribe\<close> pushes the route \<open>/subscribe\<close>, \<open>instagram\<close> with a url opens
  it, any other link does nothing), and leaves \<open>selectedDot\<close> and \<open>selectedContent\<close> as
  they were. For an ordinary record it pushes \<open>/events/ancient-technology/slug\<close>, sets
  \<open>selectedDot\<close> to the id passed and \<open>selectedContent\<close> to the slug derived from the artist
  name. The slug is the lower-cased name with every run of characters outside \<open>[a-z0-9]\<close>
  collapsed to one hyphen and the hyphens at both ends trimmed: it is made of the runs of
  \<open>[a-z0-9]\<close> of the lower-cased name, in order, with exactly one hyphen between two runs
  and nothing else. The name \<open>Jane D'Oh!!\<close> gives \<open>jane-d-oh\<close>, and \<open>AC/DC\<close> gives \<open>ac-dc\<close>.
\<close>

theorem handleArtistDotClick_effect:
  "(isSpecialLink a = Some True \<longrightarrow>
      selectedDot (handleArtistDotClick d a s) = selectedDot s
      \<and> selectedContent (handleArtistDotClick d a s) = selectedContent s
      \<and> handleArtistDotClick d a s =
            (clearAllAnimations s)\<lparr>navLog := navLog (handleArtistDotClick d a s)\<rparr>
      \<and> (linkType a = Some ''subscribe'' \<longrightarrow>
            navLog (handleArtistDotClick d a s) = navLog s @ [RouterPush ''/subscribe''])
      \<and> (linkType a = Some ''instagram'' \<and> url a = Some target \<and> target \<noteq> [] \<longrightarrow>
            navLog (handleArtistDotClick d a s) = navLog s @ [WindowOpen target])
      \<and> (linkType a \<noteq> Some ''subscribe'' \<and> \<not> (linkType a = Some ''instagram'' \<and> truthy (url a))
            \<longrightarrow> navLog (handleArtistDotClick d a s) = navLog s))
   \<and> (isSpecialLink a \<noteq> Some True \<longrightarrow>
        handleArtistDotClick d a s =
          (clearAllAnimations s)
            \<lparr>navLog := navLog s @ [RouterPush (''/events/ancient-technology/'' @ artistSlugOf (artistName a))],
             selectedDot := Some d, selectedContent := Some (artistSlugOf (artistName a))\<rparr>)
   \<and> artistSlugOf n = joinHyphen (alnumRuns [] (toLowerCase n))
   \<and> (\<forall>c \<in> set (artistSlugOf n). isSlugChar c \<or> c = CHR ''-'')
   \<and> (artistSlugOf n = [] \<or> (hd (artistSlugOf n) \<noteq> CHR ''-'' \<and> last (artistSlugOf n) \<noteq> CHR ''-''))
   \<and> noDoubleHyphen (artistSlugOf n)
   \<and> artistSlugOf ''Jane D'Oh!!'' = ''jane-d-oh''
   \<and> artistSlugOf ''AC/DC'' = ''ac-dc''"
proof -
  have sp: "selectedDot (handleArtistDotClick d a s) = selectedDot s
      \<and> selectedContent (handleArtistDotClick d a s) = selectedContent s
      \<and> handleArtistDotClick d a s =
            (clearAllAnimations s)\<lparr>navLog := navLog (handleArtistDotClick d a s)\<rparr>
      \<and> (linkType a = Some ''subscribe'' \<longrightarrow>
            navLog (handleArtistDotClick d a s) = navLog s @ [RouterPush ''/subscribe''])
      \<and> (linkType a = Some ''instagram'' \<and> url a = Some target \<and> target \<noteq> [] \<longrightarrow>
            navLog (handleArtistDotClick d a s) = navLog s @ [WindowOpen target])
      \<and> (linkType a \<noteq> Some ''subscribe'' \<and> \<not> (linkType a = Some ''instagram'' \<and> truthy (url a))
            \<longrightarrow> navLog (handleArtistDotClick d a s) = navLog s)"
    if "isSpecialLink a = Some True"
    using that
    by (auto simp: handleArtistDotClick_def Let_def clearAllAnimations_fields truthy_def
        split: option.splits)
  have ord: "handleArtistDotClick d a s =
          (clearAllAnimations s)
            \<lparr>navLog := navLog s @ [RouterPush (''/events/ancient-technology/'' @ artistSlugOf (artistName a))],
             selectedDot := Some d, selectedContent := Some (artistSlugOf (artistName a))\<rparr>"
    if "isSpecialLink a \<noteq> Some True"
    using that by (simp add: handleArtistDotClick_def Let_def clearAllAnimations_fields)
  have ex: "artistSlugOf ''Jane D'Oh!!'' = ''jane-d-oh''" "artistSlugOf ''AC/DC'' = ''ac-dc''"
    by code_simp+
  have w: "artistSlugOf n = joinHyphen (alnumRuns [] (toLowerCase n))"
    using artistSlugOf_words[of n] by (simp add: slugByWords_def)
  show ?thesis
    using sp ord ex w artistSlugOf_shape[of n] by blast
qed

theorem handleArtistDotClick_effect_witness:
  "selectedDot (handleArtistDotClick ''Subscribe''
       \<lparr>artistName = ''Subscribe'', slug = ''Subscribe'', isSpecialLink = Some True,
        linkType = Some ''subscribe'', url = Some ''/subscribe''\<rparr>
       (initialState\<lparr>selectedDot := Some ''2-0'', selectedContent := Some ''About''\<rparr>))
     = Some ''2-0''
   \<and> selectedContent (handleArtistDotClick ''Subscribe''
       \<lparr>artistName = ''Subscribe'', slug = ''Subscribe'', isSpecialLink = Some True,
        linkType = Some ''subscribe'', url = Some ''/subscribe''\<rparr>
       (initialState\<lparr>selectedDot := Some ''2-0'', selectedContent := Some ''About''\<rparr>))
     = Some ''About''
   \<and> navLog (handleArtistDotClick ''Subscribe''
       \<lparr>artistName = ''Subscribe'', slug = ''Subscribe'', isSpecialLink = Some True,
        linkType = Some ''subscribe'', url = Some ''/subscribe''\<rparr>
       (initialState\<lparr>selectedDot := Some ''2-0'', selectedContent := Some ''About''\<rparr>))
     = [RouterPush ''/subscribe'']
   \<and> handleArtistDotClick ''events-ancient-technology-jane-d-oh''
       \<lparr>artistName = ''Jane D'Oh!!'', slug = ''events-ancient-technology-jane-d-oh'',
        isSpecialLink = None, linkType = None, url = None\<rparr> initialState
     = initialState
         \<lparr>navLog := [RouterPush ''/events/ancient-technology/jane-d-oh''],
          selectedDot := Some ''events-ancient-technology-jane-d-oh'',
          selectedContent := Some ''jane-d-oh''\<rparr>
   \<and> joinHyphen (alnumRuns [] (toLowerCase ''Jane D'Oh!!'')) = ''jane-d-oh''"
proof -
  let ?s = "initialState\<lparr>selectedDot := Some ''2-0'', selectedContent := Some ''About''\<rparr>"
  let ?sub = "\<lparr>artistName = ''Subscribe'', slug = ''Subscribe'', isSpecialLink = Some True,
        linkType = Some ''subscribe'', url = Some ''/subscribe''\<rparr>"
  let ?jane = "\<lparr>artistName = ''Jane D'Oh!!'', slug = ''events-ancient-technology-jane-d-oh'',
        isSpecialLink = None, linkType = None, url = None\<rparr>"
  have n: "navLog ?s = []" "selectedDot ?s = Some ''2-0''" "selectedContent ?s = Some ''About''"
    "navLog initialState = []"
    by (simp_all add: initialState_def)
  have c: "clearAllAnimations initialState = initialState"
    by (simp add: clearAllAnimations_def initialState_def)
  have "isSpecialLink ?sub = Some True" "linkType ?sub = Some ''subscribe''" by simp_all
  with handleArtistDotClick_effect[of ?sub "''Subscribe''" ?s]
  have A: "selectedDot (handleArtistDotClick ''Subscribe'' ?sub ?s) = selectedDot ?s
     \<and> selectedContent (handleArtistDotClick ''Subscribe'' ?sub ?s) = selectedContent ?s
     \<and> navLog (handleArtistDotClick ''Subscribe'' ?sub ?s) = navLog ?s @ [RouterPush ''/subscribe'']"
    by blast
  have j: "isSpecialLink ?jane \<noteq> Some True" "artistName ?jane = ''Jane D'Oh!!''" by simp_all
  note E = handleArtistDotClick_effect[of ?jane "''events-ancient-technology-jane-d-oh''" initialState _
      "''Jane D'Oh!!''"]
  have B: "handleArtistDotClick ''events-ancient-technology-jane-d-oh'' ?jane initialState
        = (clearAllAnimations initialState)
            \<lparr>navLog := navLog initialState @
                [RouterPush (''/events/ancient-technology/'' @ artistSlugOf (artistName ?jane))],
             selectedDot := Some ''events-ancient-technology-jane-d-oh'',
             selectedContent := Some (artistSlugOf (artistName ?jane))\<rparr>"
    using E[THEN conjunct2, THEN conjunct1] j(1) by (rule mp)
  have W: "artistSlugOf ''Jane D'Oh!!'' = joinHyphen (alnumRuns [] (toLowerCase ''Jane D'Oh!!''))"
    by (rule E[THEN conjunct2, THEN conjunct2, THEN conjunct1])
  have X: "artistSlugOf ''Jane D'Oh!!'' = ''jane-d-oh''"
    by (rule E[THEN conjunct2, THEN conjunct2, THEN conjunct2, THEN conjunct2, THEN conjunct2,
          THEN conjunct2, THEN conjunct1])
  have B': "joinHyphen (alnumRuns [] (toLowerCase ''Jane D'Oh!!'')) = ''jane-d-oh''"
    using W X by simp
  show ?thesis using A B B' X unfolding j(2) n c by simp
qed


section \<open>Random picks\<close>

lemma getRandomUnusedDot_pick:
  "unusedDots c used \<noteq> [] \<Longrightarrow>
   getRandomUnusedDot c u used =
     Some (elementAt (unusedDots c used)
             (js_floor (js_mul (Fin u) (num (int (length (unusedDots c used)))))),
           case elementAt (unusedDots c used)
                  (js_floor (js_mul (Fin u) (num (int (length (unusedDots c used)))))) of
             Some d \<Rightarrow> set_add d used
           | None \<Rightarrow> used)"
  by (subst getRandomUnusedDot.simps) (simp add: Let_def)

lemma getRandomUnusedDot_reset:
  "unusedDots c used = [] \<Longrightarrow> getRandomUnusedDot c u used = getRandomUnusedDot c u []"
  by (subst getRandomUnusedDot.simps) (simp add: Let_def)

lemma set_gridIds: "set (gridIds c) = {dotId i j | i j. i < 5 \<and> j < nat c}"
  unfolding gridIds_def by auto blast+

lemma length_gridIds: "length (gridIds c) = 5 * nat c"
  by (simp add: gridIds_def length_concat comp_def sum_list_triv)

lemma unusedDots_Nil: "unusedDots c [] = gridIds c"
  by (simp add: unusedDots_def set_has_def)

lemma length_unusedDots: "length (unusedDots c used) \<le> 5 * nat c"
  unfolding unusedDots_def length_gridIds[symmetric] by (rule length_filter_le)

lemma gridIds_nonempty: "1 \<le> c \<Longrightarrow> gridIds c \<noteq> []"
proof -
  assume "1 \<le> c"
  then have "(0::nat) < 5 \<and> 0 < nat c" by simp
  then have "dotId 0 0 \<in> set (gridIds c)" unfolding set_gridIds by blast
  then show ?thesis by auto
qed

lemma elementAt_index:
  assumes "0 \<le> i" and "i < int (length xs)"
  shows "elementAt xs (Fin (of_int i)) = Some (xs ! nat i)"
proof -
  have "(of_int i :: rat) < of_int (int (length xs))" using assms(2) by (simp only: of_int_less_iff)
  then have "(of_int i :: rat) < of_nat (length xs)" by simp
  then show ?thesis using assms(1) by (simp add: elementAt_def)
qed

text \<open>
  The element read at the random index: the index computed in binary64 is an integer below
  the number of candidates, so the element is one of the candidates and not \<open>undefined\<close>.
\<close>

lemma random_element:
  assumes "xs \<noteq> []" and "int (length xs) < 2 ^ 53"
    and "fl u = Fin u" and "0 \<le> u" and "u < 1"
  shows "\<exists>d. elementAt xs (js_floor (js_mul (Fin u) (num (int (length xs))))) = Some d \<and> d \<in> set xs"
proof -
  have n: "0 < int (length xs)" using assms(1) by simp
  obtain i where i: "js_floor (js_mul (Fin u) (num (int (length xs)))) = Fin (of_int i)"
    "0 \<le> i" "i < int (length xs)"
    using random_index_in_range[OF assms(3) assms(4) assms(5) n assms(2)] by blast
  have "elementAt xs (Fin (of_int i)) = Some (xs ! nat i)" using i(2) i(3) by (rule elementAt_index)
  moreover have "xs ! nat i \<in> set xs" using i(2) i(3) by (intro nth_mem) simp
  ultimately show ?thesis unfolding i(1) by blast
qed

lemma set_add_mem: "d \<in> set (set_add d used)"
  by (simp add: set_add_def)

text \<open>
  What one call of \<open>getRandomUnusedDot\<close> returns, for at least one column and a number of
  grid ids below \<open>2^53\<close> (the candidates are held in an array, which has fewer than \<open>2^32\<close>
  elements), and for a number \<open>u\<close> of binary64 with \<open>0 \<le> u < 1\<close>.
\<close>

lemma getRandomUnusedDot_spec:
  assumes "1 \<le> c" and "5 * c < 2 ^ 53" and "fl u = Fin u" and "0 \<le> u" and "u < 1"
  shows "\<exists>d used0. getRandomUnusedDot c u used = Some (Some d, set_add d used0)
           \<and> used0 = (if unusedDots c used = [] then [] else used)
           \<and> d \<in> {dotId i j | i j. i < 5 \<and> j < nat c}
           \<and> \<not> set_has used0 d
           \<and> set_has (set_add d used0) d"
proof -
  define used0 where "used0 = (if unusedDots c used = [] then [] else used)"
  have ne: "unusedDots c used0 \<noteq> []"
    using gridIds_nonempty[OF assms(1)] by (simp add: used0_def unusedDots_Nil)
  have "int (length (unusedDots c used0)) \<le> int (5 * nat c)"
    using length_unusedDots[of c used0] by (simp only: of_nat_le_iff)
  also have "\<dots> = 5 * c" using assms(1) by simp
  finally have len: "int (length (unusedDots c used0)) < 2 ^ 53" using assms(2) by simp
  obtain d where d:
    "elementAt (unusedDots c used0)
       (js_floor (js_mul (Fin u) (num (int (length (unusedDots c used0)))))) = Some d"
    "d \<in> set (unusedDots c used0)"
    using random_element[OF ne len assms(3) assms(4) assms(5)] by blast
  have "getRandomUnusedDot c u used = getRandomUnusedDot c u used0"
    by (simp add: used0_def getRandomUnusedDot_reset)
  then have r: "getRandomUnusedDot c u used = Some (Some d, set_add d used0)"
    by (simp add: getRandomUnusedDot_pick[OF ne] d(1))
  have "d \<in> set (gridIds c)" "\<not> set_has used0 d" using d(2) by (simp_all add: unusedDots_def)
  then show ?thesis using r by (auto simp: set_gridIds used0_def set_has_def set_add_mem)
qed

text \<open>
  C10. For \<open>cols \<ge> 1\<close> (with \<open>5 * cols\<close> ids, a number below \<open>2^53\<close> as every array length
  is), every used-set and every value \<open>u\<close> of \<open>Math.random()\<close>, a binary64 number with
  \<open>0 \<le> u < 1\<close>, \<open>getRandomUnusedDot\<close> returns. With \<open>used0\<close> the used-set at the moment of
  selection (the given one, or the empty one when all grid ids were used and the set was
  reset, which happens at most once), the value returned is an id, one of the \<open>5 \<times> cols\<close>
  grid ids \<open>i-j\<close>, it is not in \<open>used0\<close>, and the new used-set is \<open>used0\<close> with the id
  added. The index \<open>Math.floor(u * n)\<close> is computed in binary64.
\<close>

theorem getRandomUnusedDot_returns:
  assumes "1 \<le> c" and "5 * c < 2 ^ 53" and "fl u = Fin u" and "0 \<le> u" and "u < 1"
  shows "\<exists>d used0. getRandomUnusedDot c u used = Some (Some d, set_add d used0)
           \<and> used0 = (if unusedDots c used = [] then [] else used)
           \<and> d \<in> {dotId i j | i j. i < 5 \<and> j < nat c}
           \<and> \<not> set_has used0 d
           \<and> set_has (set_add d used0) d"
  using assms by (rule getRandomUnusedDot_spec)

theorem getRandomUnusedDot_returns_witness:
  "(1::int) \<le> 1 \<and> (5 * 1 :: int) < 2 ^ 53 \<and> fl (7 / 8) = Fin (7 / 8)
   \<and> (0::rat) \<le> 7 / 8 \<and> (7 / 8 :: rat) < 1
   \<and> getRandomUnusedDot 1 (7 / 8) [''0-0'', ''1-0'', ''2-0'', ''3-0'', ''4-0'']
       = Some (Some ''4-0'', [''4-0''])
   \<and> unusedDots 1 [''0-0'', ''1-0'', ''2-0'', ''3-0'', ''4-0''] = []
   \<and> ''4-0'' \<in> {dotId i j | i j. i < 5 \<and> j < nat 1}"
proof -
  have g: "getRandomUnusedDot 1 (7 / 8) [''0-0'', ''1-0'', ''2-0'', ''3-0'', ''4-0'']
             = Some (Some ''4-0'', [''4-0''])"
    by code_simp
  have e: "unusedDots 1 [''0-0'', ''1-0'', ''2-0'', ''3-0'', ''4-0''] = []"
    by code_simp
  have f: "fl (7 / 8) = Fin (7 / 8)"
    using fl_exact[of 7 "- 3"] by (simp add: power_int_minus_divide)
  have h: "(1::int) \<le> 1" "(5 * 1 :: int) < 2 ^ 53" "(0::rat) \<le> 7 / 8" "(7 / 8 :: rat) < 1"
    by simp_all
  from getRandomUnusedDot_returns [OF h(1) h(2) f h(3) h(4),
      of "[''0-0'', ''1-0'', ''2-0'', ''3-0'', ''4-0'']"]
  obtain d used0
    where a: "getRandomUnusedDot 1 (7 / 8) [''0-0'', ''1-0'', ''2-0'', ''3-0'', ''4-0'']
                = Some (Some d, set_add d used0)"
      and b: "d \<in> {dotId i j | i j. i < 5 \<and> j < nat 1}"
    by blast
  from a g have "d = ''4-0''" by simp
  with b show ?thesis using g e f h by simp
qed

text \<open>Without a column the function has no candidate, ever: it does not return.\<close>

lemma getRandomUnusedDot_Some_cols:
  assumes "getRandomUnusedDot c u used = Some r"
  shows "1 \<le> c"
proof (rule getRandomUnusedDot.raw_induct[where P = "\<lambda>c u used r. 1 \<le> c", OF _ assms])
  fix f :: "int \<Rightarrow> rat \<Rightarrow> string list \<Rightarrow> (string option \<times> string list) option"
  fix c u used r
  assume ih: "\<And>c u used r. f c u used = Some r \<Longrightarrow> 1 \<le> c"
    and b: "(let allDotIds = unusedDots c used
             in if allDotIds = [] then f c u []
                else let randomIndex = js_floor (js_mul (Fin u) (num (int (length allDotIds))));
                         selected = elementAt allDotIds randomIndex
                     in Some (selected, case selected of Some d \<Rightarrow> set_add d used | None \<Rightarrow> used))
            = Some r"
  show "1 \<le> c"
  proof (cases "unusedDots c used = []")
    case True
    then show ?thesis using b ih by (simp add: Let_def)
  next
    case False
    then have "gridIds c \<noteq> []" by (auto simp: unusedDots_def)
    then show ?thesis by (cases "1 \<le> c") (simp_all add: gridIds_def)
  qed
qed

lemma getRandomUnusedDot_no_column: "c \<le> 0 \<Longrightarrow> getRandomUnusedDot c u used = None"
  using getRandomUnusedDot_Some_cols[of c u used] by (cases "getRandomUnusedDot c u used") auto

text \<open>
  The index is the floor of the rounded product. The number the literal \<open>0.12\<close> denotes
  times 25 is a little less than 3 and is rounded to 3, so that the fourth of 25 candidates
  is picked, not the third. The largest number below one, \<open>1 - 2^-53\<close>, picks the last
  candidate.
\<close>

lemma getRandomUnusedDot_rounded_product:
  "fl (12 / 100) = Fin (1080863910568919 / 9007199254740992)
   \<and> (1080863910568919 / 9007199254740992 :: rat) * 25 < 3
   \<and> js_mul (Fin (1080863910568919 / 9007199254740992)) (num 25) = Fin 3
   \<and> getRandomUnusedDot 5 (1080863910568919 / 9007199254740992) [] = Some (Some ''0-3'', [''0-3''])
   \<and> getRandomUnusedDot 5 (9007199254740991 / 9007199254740992) [] = Some (Some ''4-4'', [''4-4''])"
  by code_simp

text \<open>
  The trace of a Randomizing sequence: it starts from the given used-set, every pick is a
  grid id that is not in the used-set its call started from unless that set was exhausted,
  and the next call starts from the used-set with the pick added, cleared first when it was
  exhausted.
\<close>

lemma randomPicks_trace:
  assumes "1 \<le> c" and "5 * c < 2 ^ 53"
  shows "\<forall>u \<in> set us. fl u = Fin u \<and> 0 \<le> u \<and> u < 1 \<Longrightarrow>
         \<exists>tr. randomPicks c used us = Some tr \<and> length tr = length us
           \<and> (tr \<noteq> [] \<longrightarrow> snd (tr ! 0) = used)
           \<and> (\<forall>k < length tr. \<exists>d. fst (tr ! k) = Some d \<and> d \<in> set (gridIds c)
                  \<and> (unusedDots c (snd (tr ! k)) \<noteq> [] \<longrightarrow> \<not> set_has (snd (tr ! k)) d))
           \<and> (\<forall>k. Suc k < length tr \<longrightarrow>
                  (\<exists>d. fst (tr ! k) = Some d \<and>
                    snd (tr ! Suc k) =
                      set_add d (if unusedDots c (snd (tr ! k)) = [] then [] else snd (tr ! k))))"
proof (induction us arbitrary: used)
  case Nil
  then show ?case by simp
next
  case (Cons u us)
  have u: "fl u = Fin u" "0 \<le> u" "u < 1" using Cons.prems by simp_all
  obtain d used0 where g: "getRandomUnusedDot c u used = Some (Some d, set_add d used0)"
    and used0: "used0 = (if unusedDots c used = [] then [] else used)"
    and d: "d \<in> {dotId i j | i j. i < 5 \<and> j < nat c}" "\<not> set_has used0 d"
    using getRandomUnusedDot_spec[OF assms u, of used] by blast
  have "\<forall>u \<in> set us. fl u = Fin u \<and> 0 \<le> u \<and> u < 1" using Cons.prems by simp
  from Cons.IH[OF this, of "set_add d used0"]
  obtain tr where tr: "randomPicks c (set_add d used0) us = Some tr" "length tr = length us"
    "tr \<noteq> [] \<longrightarrow> snd (tr ! 0) = set_add d used0"
    "\<forall>k < length tr. \<exists>d. fst (tr ! k) = Some d \<and> d \<in> set (gridIds c)
        \<and> (unusedDots c (snd (tr ! k)) \<noteq> [] \<longrightarrow> \<not> set_has (snd (tr ! k)) d)"
    "\<forall>k. Suc k < length tr \<longrightarrow>
        (\<exists>d. fst (tr ! k) = Some d \<and>
          snd (tr ! Suc k) =
            set_add d (if unusedDots c (snd (tr ! k)) = [] then [] else snd (tr ! k)))"
    by blast
  let ?tr = "(Some d, used) # tr"
  have r: "randomPicks c used (u # us) = Some ?tr" by (simp add: g tr(1))
  have p2: "\<forall>k < length ?tr. \<exists>d. fst (?tr ! k) = Some d \<and> d \<in> set (gridIds c)
        \<and> (unusedDots c (snd (?tr ! k)) \<noteq> [] \<longrightarrow> \<not> set_has (snd (?tr ! k)) d)"
  proof (intro allI impI)
    fix k assume "k < length ?tr"
    then show "\<exists>d. fst (?tr ! k) = Some d \<and> d \<in> set (gridIds c)
        \<and> (unusedDots c (snd (?tr ! k)) \<noteq> [] \<longrightarrow> \<not> set_has (snd (?tr ! k)) d)"
      using d used0 tr(4) by (cases k) (auto simp: set_gridIds)
  qed
  have p3: "\<forall>k. Suc k < length ?tr \<longrightarrow>
        (\<exists>d. fst (?tr ! k) = Some d \<and>
          snd (?tr ! Suc k) =
            set_add d (if unusedDots c (snd (?tr ! k)) = [] then [] else snd (?tr ! k)))"
  proof (intro allI impI)
    fix k assume "Suc k < length ?tr"
    then show "\<exists>d. fst (?tr ! k) = Some d \<and>
          snd (?tr ! Suc k) =
            set_add d (if unusedDots c (snd (?tr ! k)) = [] then [] else snd (?tr ! k))"
      using tr(3) tr(5) used0 by (cases k) auto
  qed
  show ?case using r tr(2) p2 p3 by (intro exI[of _ ?tr]) simp
qed

text \<open>
  C4 as stated fails. With five columns and an empty used-set, 25 picks use up the 25 ids;
  the 26th call finds the used-set exhausted, clears it and can pick the id of the 25th
  pick again: here both are \<open>4-4\<close>.
\<close>

theorem randomPicks_repeat_at_reset:
  "map_option (map fst) (randomPicks 5 [] (replicate 25 0 @ [31 / 32])) =
     Some [Some ''0-0'', Some ''0-1'', Some ''0-2'', Some ''0-3'', Some ''0-4'',
           Some ''1-0'', Some ''1-1'', Some ''1-2'', Some ''1-3'', Some ''1-4'',
           Some ''2-0'', Some ''2-1'', Some ''2-2'', Some ''2-3'', Some ''2-4'',
           Some ''3-0'', Some ''3-1'', Some ''3-2'', Some ''3-3'', Some ''3-4'',
           Some ''4-0'', Some ''4-1'', Some ''4-2'', Some ''4-3'', Some ''4-4'', Some ''4-4'']"
  by code_simp

text \<open>
  C4, amended. For \<open>cols \<ge> 1\<close> (with \<open>5 * cols\<close> below \<open>2^53\<close>) and every count \<open>N\<close> (the
  length of the list of random values, binary64 numbers from 0 up to but not including 1),
  the sequence of \<open>N\<close> picks exists, every value picked is an id, one of the grid ids
  \<open>i-j\<close> with \<open>i < 5\<close> and \<open>j < cols\<close>, and a pick equals the pick before it only if the
  used-set was exhausted when its call started, that is, only right after a reset. When
  the used-set is exhausted it is cleared and sampling goes on: the next call starts from
  the used-set with the pick added, emptied first if it was exhausted.
\<close>

theorem randomPicks_repeat_only_at_reset:
  assumes "1 \<le> c" and "5 * c < 2 ^ 53" and "\<forall>u \<in> set us. fl u = Fin u \<and> 0 \<le> u \<and> u < 1"
  shows "\<exists>tr. randomPicks c used us = Some tr \<and> length tr = length us
           \<and> (\<forall>k < length tr. \<exists>d. fst (tr ! k) = Some d \<and> d \<in> {dotId i j | i j. i < 5 \<and> j < nat c})
           \<and> (\<forall>k. Suc k < length tr \<and> fst (tr ! Suc k) = fst (tr ! k)
                  \<longrightarrow> unusedDots c (snd (tr ! Suc k)) = [])
           \<and> (\<forall>k. Suc k < length tr \<longrightarrow>
                  (\<exists>d. fst (tr ! k) = Some d \<and>
                    snd (tr ! Suc k) =
                      set_add d (if unusedDots c (snd (tr ! k)) = [] then [] else snd (tr ! k))))"
proof -
  from randomPicks_trace[OF assms, of used]
  obtain tr where tr: "randomPicks c used us = Some tr" "length tr = length us"
    "\<forall>k < length tr. \<exists>d. fst (tr ! k) = Some d \<and> d \<in> set (gridIds c)
        \<and> (unusedDots c (snd (tr ! k)) \<noteq> [] \<longrightarrow> \<not> set_has (snd (tr ! k)) d)"
    "\<forall>k. Suc k < length tr \<longrightarrow>
        (\<exists>d. fst (tr ! k) = Some d \<and>
          snd (tr ! Suc k) =
            set_add d (if unusedDots c (snd (tr ! k)) = [] then [] else snd (tr ! k)))"
    by blast
  have rep: "unusedDots c (snd (tr ! Suc k)) = []"
    if k: "Suc k < length tr" and e: "fst (tr ! Suc k) = fst (tr ! k)" for k
  proof (rule ccontr)
    assume n: "unusedDots c (snd (tr ! Suc k)) \<noteq> []"
    obtain d where d: "fst (tr ! k) = Some d"
      "snd (tr ! Suc k) = set_add d (if unusedDots c (snd (tr ! k)) = [] then [] else snd (tr ! k))"
      using tr(4) k by blast
    have "set_has (snd (tr ! Suc k)) d" unfolding d(2) by (simp add: set_has_def set_add_mem)
    moreover obtain d' where d': "fst (tr ! Suc k) = Some d'" "\<not> set_has (snd (tr ! Suc k)) d'"
      using tr(3) k n by blast
    ultimately show False using e d(1) by simp
  qed
  have ids: "\<forall>k < length tr. \<exists>d. fst (tr ! k) = Some d \<and> d \<in> {dotId i j | i j. i < 5 \<and> j < nat c}"
    using tr(3) unfolding set_gridIds by blast
  show ?thesis
    using tr(1) tr(2) tr(4) rep ids by (intro exI[of _ tr]) blast
qed

theorem randomPicks_repeat_only_at_reset_witness:
  "(1::int) \<le> 1 \<and> (5 * 1 :: int) < 2 ^ 53 \<and> fl 0 = Fin 0 \<and> fl (7 / 8) = Fin (7 / 8)
   \<and> (0::rat) \<le> 0 \<and> (0::rat) < 1 \<and> (0::rat) \<le> 7 / 8 \<and> (7 / 8 :: rat) < 1
   \<and> randomPicks 1 [] [0, 0, 0, 0, 0, 7 / 8] =
        Some [(Some ''0-0'', []), (Some ''1-0'', [''0-0'']), (Some ''2-0'', [''0-0'', ''1-0'']),
              (Some ''3-0'', [''0-0'', ''1-0'', ''2-0'']),
              (Some ''4-0'', [''0-0'', ''1-0'', ''2-0'', ''3-0'']),
              (Some ''4-0'', [''0-0'', ''1-0'', ''2-0'', ''3-0'', ''4-0''])]
   \<and> unusedDots 1 [''0-0'', ''1-0'', ''2-0'', ''3-0'', ''4-0''] = []"
proof -
  have f: "fl 0 = Fin 0" "fl (7 / 8) = Fin (7 / 8)"
    using fl_exact[of 7 "- 3"] by (simp_all add: fl_def power_int_minus_divide)
  have h: "(1::int) \<le> 1" "(5 * 1 :: int) < 2 ^ 53"
    "\<forall>u \<in> set [0, 0, 0, 0, 0, 7 / 8 :: rat]. fl u = Fin u \<and> 0 \<le> u \<and> u < 1"
    using f by simp_all
  have r: "randomPicks 1 [] [0, 0, 0, 0, 0, 7 / 8] =
        Some [(Some ''0-0'', []), (Some ''1-0'', [''0-0'']), (Some ''2-0'', [''0-0'', ''1-0'']),
              (Some ''3-0'', [''0-0'', ''1-0'', ''2-0'']),
              (Some ''4-0'', [''0-0'', ''1-0'', ''2-0'', ''3-0'']),
              (Some ''4-0'', [''0-0'', ''1-0'', ''2-0'', ''3-0'', ''4-0''])]"
    by code_simp
  have e: "unusedDots 1 [''0-0'', ''1-0'', ''2-0'', ''3-0'', ''4-0''] = []" by code_simp
  from randomPicks_repeat_only_at_reset [OF h, of "[]"]
  obtain tr where "randomPicks 1 [] [0, 0, 0, 0, 0, 7 / 8] = Some tr"
    "\<forall>k. Suc k < length tr \<and> fst (tr ! Suc k) = fst (tr ! k)
        \<longrightarrow> unusedDots 1 (snd (tr ! Suc k)) = []"
    by blast
  then show ?thesis using r e f by simp
qed


section \<open>Exact cases and evaluation of the rounding\<close>

text \<open>Integers and quarters of moderate size are representable.\<close>

lemma fl_int: "\<bar>n\<bar> < 2 ^ 53 \<Longrightarrow> fl (of_int n) = Fin (of_int n)"
  using fl_exact[of n 0] by simp

lemma fl_quarter: "\<bar>n\<bar> < 2 ^ 53 \<Longrightarrow> fl (of_int n / 4) = Fin (of_int n / 4)"
  using fl_exact[of n "- 2"] by (simp add: power_int_minus_divide)

text \<open>Evaluating \<open>fl\<close> at a given number: its exponent and its rounded significand.\<close>

lemma ilog2_unique:
  fixes v :: rat
  assumes "v \<noteq> 0" and lo: "2 powi L \<le> \<bar>v\<bar>" and hi: "\<bar>v\<bar> < 2 powi (L + 1)"
  shows "ilog2 v = L"
proof -
  have a: "(2::rat) powi (ilog2 v) < 2 powi (L + 1)"
    using ilog2_bounds(1)[OF assms(1)] hi by (rule le_less_trans)
  have b: "(2::rat) powi L < 2 powi (ilog2 v + 1)"
    using lo ilog2_bounds(2)[OF assms(1)] by (rule le_less_trans)
  have "ilog2 v < L + 1"
    using a power_int_increasing[of "L + 1" "ilog2 v" "2::rat"] by (cases "ilog2 v < L + 1") auto
  moreover have "L < ilog2 v + 1"
    using b power_int_increasing[of "ilog2 v + 1" L "2::rat"] by (cases "L < ilog2 v + 1") auto
  ultimately show ?thesis by simp
qed

lemma rne_near:
  assumes "of_int m - 1 / 2 < v" and "v < of_int m + 1 / 2"
  shows "rne v = m"
proof (cases "of_int m \<le> v")
  case True
  then have f: "\<lfloor>v\<rfloor> = m" using assms(2) by (intro floor_unique) auto
  show ?thesis using assms(2) by (simp add: rne_def f Let_def)
next
  case False
  then have f: "\<lfloor>v\<rfloor> = m - 1" using assms(1) by (intro floor_unique) auto
  show ?thesis using assms(1) False by (simp add: rne_def f Let_def)
qed

lemma rne_tie_even:
  assumes "v = of_int m + 1 / 2" and "even m"
  shows "rne v = m"
proof -
  have f: "\<lfloor>v\<rfloor> = m" unfolding assms(1) by (intro floor_unique) auto
  have d: "v - of_int m = 1 / 2" using assms(1) by simp
  show ?thesis unfolding rne_def Let_def f d using assms(2) by simp
qed

lemma fl_eval:
  fixes v :: rat
  assumes "v \<noteq> 0" and "2 powi L \<le> \<bar>v\<bar>" and "\<bar>v\<bar> < 2 powi (L + 1)"
    and "- 1022 \<le> L" and "L \<le> 1022"
    and "rne (v / 2 powi (L - 52)) = m"
  shows "fl v = Fin (of_int m * 2 powi (L - 52))"
proof -
  have e: "max (ilog2 v - 52) (- 1074) = L - 52"
    using assms(4) by (simp add: ilog2_unique[OF assms(1,2,3)])
  have n: "\<not> (971 < L - 52 \<or> (L - 52 = 971 \<and> 2 ^ 53 \<le> \<bar>m\<bar>))" using assms(5) by simp
  show ?thesis unfolding fl_def Let_def e assms(6) using assms(1) n by simp
qed

section \<open>Grid and world coordinates\<close>

text \<open>The number the literal \<open>0.7\<close> denotes, three times it, and the quotient back.\<close>

lemma fl_seven_tenths: "fl (7 / 10) = Fin (3152519739159347 / 4503599627370496)"
proof -
  have "rne ((7 / 10) / 2 powi (- 1 - 52)) = 6305039478318694"
    by (rule rne_near) (simp_all add: power_int_minus_divide)
  from fl_eval[of "7 / 10" "- 1", OF _ _ _ _ _ this] show ?thesis
    by (simp add: power_int_minus_divide)
qed

lemma three_times_seven_tenths:
  "js_mul (num 3) (Fin (3152519739159347 / 4503599627370496))
     = Fin (1182194902184755 / 562949953421312)"
proof -
  have "rne ((3 * (3152519739159347 / 4503599627370496)) / 2 powi (1 - 52)) = 4728779608739020"
    by (rule rne_tie_even) (simp_all add: power_int_minus_divide)
  from fl_eval[of "3 * (3152519739159347 / 4503599627370496)" 1, OF _ _ _ _ _ this] show ?thesis
    by (simp add: js_mul_def num_def power_int_minus_divide)
qed

lemma quotient_by_seven_tenths:
  "js_div (Fin (1182194902184755 / 562949953421312)) (Fin (3152519739159347 / 4503599627370496))
     = Fin (6755399441055743 / 2251799813685248)"
proof -
  have "rne (((1182194902184755 / 562949953421312) / (3152519739159347 / 4503599627370496))
              / 2 powi (1 - 52)) = 6755399441055743"
    by (rule rne_near) (simp_all add: power_int_minus_divide)
  from fl_eval[of "(1182194902184755 / 562949953421312) / (3152519739159347 / 4503599627370496)" 1,
      OF _ _ _ _ _ this]
  show ?thesis
    by (simp add: js_div_def power_int_minus_divide)
qed

lemma seven_tenths_plus_zero:
  "js_add (Fin (3152519739159347 / 4503599627370496)) (num 0)
     = Fin (3152519739159347 / 4503599627370496)"
  using fl_exact[of 3152519739159347 "- 52"]
  by (simp add: js_add_def num_def power_int_minus_divide)

text \<open>
  C7 as stated fails. With \<open>cellSize = 0.7\<close> and \<open>gap = 0\<close> the product \<open>3 * 0.7\<close> is rounded to
  \<open>2.0999999999999996\<close>, its quotient by \<open>0.7\<close> to \<open>2.9999999999999996\<close>, and the floor
  is 2: the column 3 comes back as column 2.
\<close>

theorem round_trip_fails_at_seven_tenths:
  "worldToGrid (gridToWorld \<lparr>row = num 0, col = num 3\<rparr> (fl (7 / 10)) (num 0)) (fl (7 / 10)) (num 0)
     = \<lparr>row = num 0, col = num 2\<rparr>
   \<and> worldToGrid (gridToWorld \<lparr>row = num 0, col = num 3\<rparr> (fl (7 / 10)) (num 0)) (fl (7 / 10)) (num 0)
     \<noteq> \<lparr>row = num 0, col = num 3\<rparr>"
proof -
  have z: "js_mul (num 0) (Fin (3152519739159347 / 4503599627370496)) = Fin 0"
    "js_div (Fin 0) (Fin (3152519739159347 / 4503599627370496)) = Fin 0"
    by (simp_all add: js_mul_def js_div_def num_def fl_def)
  have f: "\<lfloor>6755399441055743 / 2251799813685248 :: rat\<rfloor> = 2"
    by (intro floor_unique) simp_all
  have e: "worldToGrid (gridToWorld \<lparr>row = num 0, col = num 3\<rparr> (fl (7 / 10)) (num 0))
             (fl (7 / 10)) (num 0) = \<lparr>row = num 0, col = num 2\<rparr>"
    unfolding worldToGrid_def gridToWorld_def fl_seven_tenths
    by (simp add: seven_tenths_plus_zero three_times_seven_tenths quotient_by_seven_tenths z
        js_floor_def f)
       (simp add: num_def)
  show ?thesis unfolding e by (simp add: num_def)
qed

text \<open>
  The number the literal \<open>0.1\<close> denotes and its products with 3, which is rounded up to
  \<open>0.30000000000000004\<close>, and with 2, which is exact.
\<close>

lemma rne_tie_odd:
  assumes "v = of_int m + 1 / 2" and "odd m"
  shows "rne v = m + 1"
proof -
  have f: "\<lfloor>v\<rfloor> = m" unfolding assms(1) by (intro floor_unique) auto
  have d: "v - of_int m = 1 / 2" using assms(1) by simp
  show ?thesis unfolding rne_def Let_def f d using assms(2) by simp
qed

lemma fl_one_tenth: "fl (1 / 10) = Fin (3602879701896397 / 36028797018963968)"
proof -
  have "rne ((1 / 10) / 2 powi (- 4 - 52)) = 7205759403792794"
    by (rule rne_near) (simp_all add: power_int_minus_divide)
  from fl_eval[of "1 / 10" "- 4", OF _ _ _ _ _ this] show ?thesis
    by (simp add: power_int_minus_divide)
qed

lemma one_tenth_plus_zero:
  "js_add (Fin (3602879701896397 / 36028797018963968)) (num 0)
     = Fin (3602879701896397 / 36028797018963968)"
  using fl_exact[of 3602879701896397 "- 55"]
  by (simp add: js_add_def num_def power_int_minus_divide)

lemma three_times_one_tenth:
  "js_mul (num 3) (Fin (3602879701896397 / 36028797018963968))
     = Fin (1351079888211149 / 4503599627370496)"
proof -
  have "rne ((3 * (3602879701896397 / 36028797018963968)) / 2 powi (- 2 - 52)) = 5404319552844595 + 1"
    by (rule rne_tie_odd) (simp_all add: power_int_minus_divide)
  from fl_eval[of "3 * (3602879701896397 / 36028797018963968)" "- 2", OF _ _ _ _ _ this] show ?thesis
    by (simp add: js_mul_def num_def power_int_minus_divide)
qed

lemma two_times_one_tenth:
  "js_mul (num 2) (Fin (3602879701896397 / 36028797018963968))
     = Fin (3602879701896397 / 18014398509481984)"
  using fl_exact[of 3602879701896397 "- 54"]
  by (simp add: js_mul_def num_def power_int_minus_divide)

text \<open>
  One coordinate of the round trip. The product \<open>n * w\<close> is rounded with a relative error
  of at most \<open>2^-53\<close>, and so is its quotient by \<open>w\<close>: the quotient computed, \<open>t\<close>, lies
  strictly between \<open>n - 1\<close> and \<open>n + 1\<close>, and is not below \<open>n\<close> when the product was not
  rounded down.
\<close>

lemma coordinate_round_trip:
  fixes w :: rat
  assumes "fl w0 = Fin w" and "0 < w" and "\<bar>n\<bar> < 2 ^ 52" and "fl (of_int n * w) = Fin p"
  shows "\<exists>n' t. js_div (Fin p) (Fin w) = Fin t \<and> js_floor (Fin t) = num n'
           \<and> (n' = n \<or> n' = n - 1) \<and> (n' = n \<longleftrightarrow> of_int n \<le> t)
           \<and> (of_int n * w \<le> p \<longrightarrow> n' = n)"
proof (cases "n = 0")
  case True
  then have "p = 0" using assms(4) by (simp add: fl_def)
  then show ?thesis using True assms(2)
    by (intro exI[of _ 0]) (simp add: js_div_def js_floor_def num_def fl_def)
next
  case False
  define a :: rat where "a = of_int \<bar>n\<bar>"
  have a1: "1 \<le> a" using False by (simp add: a_def)
  have "\<bar>n\<bar> \<le> 2 ^ 52 - 1" using assms(3) by simp
  then have "(of_int \<bar>n\<bar> :: rat) \<le> of_int (2 ^ 52 - 1)" by (simp only: of_int_le_iff)
  then have a52: "a \<le> 2 ^ 52 - 1" by (simp add: a_def)
  define v where "v = of_int n * w"
  have av: "\<bar>v\<bar> = a * w" using assms(2) by (simp add: v_def a_def abs_mult)
  obtain m e where me: "w = of_int m * 2 powi e" "- 1074 \<le> e" using fl_form[OF assms(1)] by blast
  have "v = of_int (n * m) * 2 powi e" by (simp add: v_def me(1))
  from fl_rel_error_multiple[OF _ this me(2), of p] assms(4)
  have pv: "\<bar>p - v\<bar> \<le> a * w / 2 ^ 53" by (simp add: v_def[symmetric] av)
  define q where "q = p / w"
  have "q - of_int n = (p - v) / w" using assms(2) by (simp add: q_def v_def diff_divide_distrib)
  then have "\<bar>q - of_int n\<bar> = \<bar>p - v\<bar> / w" using assms(2) by (simp add: abs_divide)
  also have "\<dots> \<le> (a * w / 2 ^ 53) / w" using pv assms(2) by (intro divide_right_mono) simp_all
  also have "\<dots> = a / 2 ^ 53" using assms(2) by simp
  finally have qn: "\<bar>q - of_int n\<bar> \<le> a / 2 ^ 53" .
  have ah: "a / 2 ^ 53 < 1 / 2" using a52 by simp
  have "\<bar>q\<bar> \<le> \<bar>q - of_int n\<bar> + \<bar>of_int n :: rat\<bar>" by simp
  then have qa: "\<bar>q\<bar> \<le> a / 2 ^ 53 + a" using qn by (simp add: a_def)
  then have q53: "\<bar>q\<bar> < 2 ^ 53" using ah a52 by simp
  have "\<bar>of_int n :: rat\<bar> \<le> \<bar>q - of_int n\<bar> + \<bar>q\<bar>" by simp
  then have "a - a / 2 ^ 53 \<le> \<bar>q\<bar>" using qn by (simp add: a_def)
  then have qh: "1 / 2 \<le> \<bar>q\<bar>" using ah a1 by simp
  then have q0: "q \<noteq> 0" by auto
  have "2 powi (- 1) \<le> \<bar>q\<bar>" using qh by (simp add: power_int_minus_divide)
  then have "- 1 \<le> ilog2 q" using q0 by (intro ilog2_ge)
  then have L: "- 1022 \<le> ilog2 q" by simp
  obtain t where t: "fl q = Fin t" using fl_small(2)[OF q0 q53] by auto
  have "\<bar>t - q\<bar> \<le> \<bar>q\<bar> / 2 ^ 53" using t q0 L by (rule fl_rel_error_normal)
  also have "\<dots> \<le> (a / 2 ^ 53 + a) / 2 ^ 53" using qa by (intro divide_right_mono) simp_all
  finally have tq: "\<bar>t - q\<bar> \<le> (a / 2 ^ 53 + a) / 2 ^ 53" .
  have "\<bar>t - of_int n\<bar> \<le> \<bar>t - q\<bar> + \<bar>q - of_int n\<bar>" by simp
  also have "\<dots> \<le> (a / 2 ^ 53 + a) / 2 ^ 53 + a / 2 ^ 53" using tq qn by (rule add_mono)
  also have "\<dots> \<le> ((2 ^ 52 - 1) / 2 ^ 53 + (2 ^ 52 - 1)) / 2 ^ 53 + (2 ^ 52 - 1) / 2 ^ 53"
    using a52 by (intro add_mono divide_right_mono) simp_all
  also have "\<dots> < 1" by simp
  finally have tn: "\<bar>t - of_int n\<bar> < 1" .
  then have lo: "of_int n - 1 < t" and hi: "t < of_int n + 1" by (simp_all add: abs_less_iff)
  have dv: "js_div (Fin p) (Fin w) = Fin t"
    using assms(2) t by (simp add: js_div_def q_def)
  have fl_q: "js_floor (Fin t) = num \<lfloor>t\<rfloor>"
    by (simp add: js_floor_def num_def)
  have cases: "\<lfloor>t\<rfloor> = n \<or> \<lfloor>t\<rfloor> = n - 1"
  proof (cases "of_int n \<le> t")
    case True
    then have "\<lfloor>t\<rfloor> = n" using hi by (intro floor_unique) simp_all
    then show ?thesis by simp
  next
    case False
    then have "\<lfloor>t\<rfloor> = n - 1" using lo by (intro floor_unique) simp_all
    then show ?thesis by simp
  qed
  have up: "\<lfloor>t\<rfloor> = n" if "of_int n * w \<le> p"
  proof -
    have "of_int n \<le> q" unfolding q_def using that assms(2) by (simp add: pos_le_divide_eq)
    with t q53 have "of_int n \<le> t" by (rule fl_ge_int)
    then show ?thesis using hi by (intro floor_unique) simp_all
  qed
  have iff: "\<lfloor>t\<rfloor> = n \<longleftrightarrow> of_int n \<le> t"
  proof
    assume "\<lfloor>t\<rfloor> = n"
    then show "of_int n \<le> t" using of_int_floor_le[of t] by simp
  next
    assume "of_int n \<le> t"
    then show "\<lfloor>t\<rfloor> = n" using hi by (intro floor_unique) simp_all
  qed
  show ?thesis using dv fl_q cases iff up by blast
qed

lemma js_add_Fin:
  assumes "js_add a b = Fin w"
  shows "\<exists>w0. fl w0 = Fin w"
  using assms by (auto simp: js_add_def split: jsnum.splits if_splits)

lemma round_trip_coordinates:
  assumes "js_add cellSize gap = Fin w" and "0 < w"
    and "\<bar>r\<bar> < 2 ^ 52" and "\<bar>c\<bar> < 2 ^ 52"
    and "js_mul (num c) (Fin w) = Fin px" and "js_mul (num r) (Fin w) = Fin py"
  shows "\<exists>r' c' qy qx.
           js_div (Fin py) (Fin w) = Fin qy \<and> js_div (Fin px) (Fin w) = Fin qx
           \<and> worldToGrid (gridToWorld \<lparr>row = num r, col = num c\<rparr> cellSize gap) cellSize gap
                 = \<lparr>row = num r', col = num c'\<rparr>
           \<and> (r' = r \<or> r' = r - 1) \<and> (c' = c \<or> c' = c - 1)
           \<and> (r' = r \<longleftrightarrow> of_int r \<le> qy) \<and> (c' = c \<longleftrightarrow> of_int c \<le> qx)
           \<and> (of_int r * w \<le> py \<longrightarrow> r' = r) \<and> (of_int c * w \<le> px \<longrightarrow> c' = c)"
proof -
  obtain w0 where w0: "fl w0 = Fin w" using js_add_Fin[OF assms(1)] by blast
  have px: "fl (of_int c * w) = Fin px" using assms(5) by (simp add: js_mul_def num_def)
  have py: "fl (of_int r * w) = Fin py" using assms(6) by (simp add: js_mul_def num_def)
  obtain c' qx where c': "js_div (Fin px) (Fin w) = Fin qx" "js_floor (Fin qx) = num c'"
    "c' = c \<or> c' = c - 1" "c' = c \<longleftrightarrow> of_int c \<le> qx" "of_int c * w \<le> px \<longrightarrow> c' = c"
    using coordinate_round_trip[OF w0 assms(2) assms(4) px] by blast
  obtain r' qy where r': "js_div (Fin py) (Fin w) = Fin qy" "js_floor (Fin qy) = num r'"
    "r' = r \<or> r' = r - 1" "r' = r \<longleftrightarrow> of_int r \<le> qy" "of_int r * w \<le> py \<longrightarrow> r' = r"
    using coordinate_round_trip[OF w0 assms(2) assms(3) py] by blast
  have "worldToGrid (gridToWorld \<lparr>row = num r, col = num c\<rparr> cellSize gap) cellSize gap
          = \<lparr>row = num r', col = num c'\<rparr>"
    by (simp add: worldToGrid_def gridToWorld_def assms(1) assms(5) assms(6) c'(1,2) r'(1,2))
  then show ?thesis using c'(1,3,4,5) r'(1,3,4,5) by blast
qed


text \<open>
  C7, amended. For integer \<open>row\<close> and \<open>col\<close> below \<open>2^52\<close> in magnitude and every
  \<open>cellSize\<close> and \<open>gap\<close> whose computed sum \<open>w\<close> is finite and positive and whose products
  with \<open>col\<close> and \<open>row\<close> are finite, \<open>worldToGrid\<close> after \<open>gridToWorld\<close> returns integers,
  in each coordinate the original one or the original one less one, and it returns the
  original coordinate exactly when the quotient computed by \<open>worldToGrid\<close> is not below
  it, which is the case whenever the product computed by \<open>gridToWorld\<close> is not below the
  exact product, that is, whenever the multiplication was exact or rounded up. Only a
  product that was rounded down can make the floor fall short, and then by one.
\<close>

theorem round_trip_within_one:
  assumes "js_add cellSize gap = Fin w" and "0 < w"
    and "\<bar>r\<bar> < 2 ^ 52" and "\<bar>c\<bar> < 2 ^ 52"
    and "js_mul (num c) (Fin w) = Fin px" and "js_mul (num r) (Fin w) = Fin py"
  shows "\<exists>r' c' qy qx.
           js_div (Fin py) (Fin w) = Fin qy \<and> js_div (Fin px) (Fin w) = Fin qx
           \<and> worldToGrid (gridToWorld \<lparr>row = num r, col = num c\<rparr> cellSize gap) cellSize gap
                 = \<lparr>row = num r', col = num c'\<rparr>
           \<and> (r' = r \<or> r' = r - 1) \<and> (c' = c \<or> c' = c - 1)
           \<and> (r' = r \<longleftrightarrow> of_int r \<le> qy) \<and> (c' = c \<longleftrightarrow> of_int c \<le> qx)
           \<and> (of_int r * w \<le> py \<longrightarrow> r' = r) \<and> (of_int c * w \<le> px \<longrightarrow> c' = c)"
  using assms by (rule round_trip_coordinates)

theorem round_trip_within_one_witness:
  "js_add (Fin (3602879701896397 / 36028797018963968)) (num 0)
     = Fin (3602879701896397 / 36028797018963968)
   \<and> (0::rat) < 3602879701896397 / 36028797018963968
   \<and> \<bar>2::int\<bar> < 2 ^ 52 \<and> \<bar>3::int\<bar> < 2 ^ 52
   \<and> js_mul (num 3) (Fin (3602879701896397 / 36028797018963968))
       = Fin (1351079888211149 / 4503599627370496)
   \<and> js_mul (num 2) (Fin (3602879701896397 / 36028797018963968))
       = Fin (3602879701896397 / 18014398509481984)
   \<and> of_int 2 * (3602879701896397 / 36028797018963968) \<le> (3602879701896397 / 18014398509481984 :: rat)
   \<and> of_int 3 * (3602879701896397 / 36028797018963968) \<le> (1351079888211149 / 4503599627370496 :: rat)
   \<and> worldToGrid (gridToWorld \<lparr>row = num 2, col = num 3\<rparr>
          (Fin (3602879701896397 / 36028797018963968)) (num 0))
        (Fin (3602879701896397 / 36028797018963968)) (num 0)
       = \<lparr>row = num 2, col = num 3\<rparr>"
proof -
  have h: "(0::rat) < 3602879701896397 / 36028797018963968" "\<bar>2::int\<bar> < 2 ^ 52" "\<bar>3::int\<bar> < 2 ^ 52"
    by simp_all
  have le: "of_int 2 * (3602879701896397 / 36028797018963968) \<le> (3602879701896397 / 18014398509481984 :: rat)"
    "of_int 3 * (3602879701896397 / 36028797018963968) \<le> (1351079888211149 / 4503599627370496 :: rat)"
    by simp_all
  from round_trip_within_one [OF one_tenth_plus_zero h(1) h(2) h(3)
      three_times_one_tenth two_times_one_tenth]
  obtain r' c' qy qx where rc: "worldToGrid (gridToWorld \<lparr>row = num 2, col = num 3\<rparr>
          (Fin (3602879701896397 / 36028797018963968)) (num 0))
        (Fin (3602879701896397 / 36028797018963968)) (num 0) = \<lparr>row = num r', col = num c'\<rparr>"
    and r': "of_int 2 * (3602879701896397 / 36028797018963968)
               \<le> (3602879701896397 / 18014398509481984 :: rat) \<longrightarrow> r' = 2"
    and c': "of_int 3 * (3602879701896397 / 36028797018963968)
               \<le> (1351079888211149 / 4503599627370496 :: rat) \<longrightarrow> c' = 3"
    by (elim exE conjE)
  have "r' = 2" using r' le(1) by (rule mp)
  moreover have "c' = 3" using c' le(2) by (rule mp)
  ultimately have "worldToGrid (gridToWorld \<lparr>row = num 2, col = num 3\<rparr>
          (Fin (3602879701896397 / 36028797018963968)) (num 0))
        (Fin (3602879701896397 / 36028797018963968)) (num 0)
       = \<lparr>row = num 2, col = num 3\<rparr>"
    using rc by simp
  then show ?thesis
    using one_tenth_plus_zero three_times_one_tenth two_times_one_tenth h le
    by (intro conjI)
qed

text \<open>
  The failing input above has a product that is rounded down: \<open>3 * 0.7\<close> is computed as
  \<open>2.0999999999999996\<close>, below the exact product, and the column comes back one short as
  the theorem allows.
\<close>

lemma seven_tenths_rounded_down:
  "(1182194902184755 / 562949953421312 :: rat) < of_int 3 * (3152519739159347 / 4503599627370496)"
  by simp

text \<open>The round trip when both products are exact.\<close>

lemma round_trip_exact:
  assumes "js_add cellSize gap = Fin w" and "0 < w"
    and "\<bar>r\<bar> < 2 ^ 53" and "\<bar>c\<bar> < 2 ^ 53"
    and "js_mul (num c) (Fin w) = Fin (of_int c * w)"
    and "js_mul (num r) (Fin w) = Fin (of_int r * w)"
  shows "worldToGrid (gridToWorld \<lparr>row = num r, col = num c\<rparr> cellSize gap) cellSize gap
           = \<lparr>row = num r, col = num c\<rparr>"
proof -
  have d: "js_floor (js_div (Fin (of_int n * w)) (Fin w)) = num n" if "\<bar>n\<bar> < 2 ^ 53" for n
    using assms(2) that by (simp add: js_div_def js_floor_def num_def fl_int)
  show ?thesis
    using assms d[of r] d[of c] by (simp add: worldToGrid_def gridToWorld_def)
qed

text \<open>Integer cell sizes and gaps give exact products as long as these stay below \<open>2^53\<close>.\<close>

lemma round_trip_integer_cells:
  assumes "0 < cs + g" and "\<bar>cs + g\<bar> < 2 ^ 53"
    and "\<bar>r\<bar> < 2 ^ 53" and "\<bar>c\<bar> < 2 ^ 53"
    and "\<bar>c * (cs + g)\<bar> < 2 ^ 53" and "\<bar>r * (cs + g)\<bar> < 2 ^ 53"
  shows "worldToGrid (gridToWorld \<lparr>row = num r, col = num c\<rparr> (num cs) (num g)) (num cs) (num g)
           = \<lparr>row = num r, col = num c\<rparr>"
proof -
  have a: "js_add (num cs) (num g) = Fin (of_int (cs + g))"
    using fl_int[OF assms(2)] by (simp add: js_add_def num_def)
  have p: "js_mul (num n) (Fin (of_int (cs + g))) = Fin (of_int n * of_int (cs + g))"
    if "\<bar>n * (cs + g)\<bar> < 2 ^ 53" for n
    using fl_int[OF that] by (simp add: js_mul_def num_def)
  have w: "(0::rat) < of_int (cs + g)" using assms(1) by (simp only: of_int_0_less_iff)
  show ?thesis
    by (rule round_trip_exact [OF a w assms(3) assms(4) p[OF assms(5)] p[OF assms(6)]])
qed


section \<open>Position colours\<close>

text \<open>
  With five columns the column factor is a multiple of a quarter, so for channels between
  0 and 255 every intermediate result of \<open>mixChannel\<close> is exact.
\<close>

lemma colFactor_five:
  assumes "0 \<le> c" "c \<le> 4"
  shows "js_div (num c) (js_sub (num 5) (num 1)) = Fin (of_int c / 4)"
proof -
  have "js_sub (num 5) (num 1) = Fin 4"
    using fl_int[of 4] by (simp add: js_sub_def js_add_def js_neg_def num_def)
  moreover have "\<bar>c\<bar> < 2 ^ 53" using assms by simp
  ultimately show ?thesis by (simp add: js_div_def num_def fl_quarter)
qed

lemma mixChannel_quarters:
  assumes "0 \<le> a" "a \<le> 255" "0 \<le> b" "b \<le> 255" "0 \<le> c" "c \<le> 4"
  shows "mixChannel (num a) (num b) (Fin (of_int c / 4)) = num ((4 * a + (b - a) * c + 2) div 4)"
proof -
  have d: "js_sub (num b) (num a) = Fin (of_int (b - a))"
    using assms fl_int[of "b - a"] by (simp add: js_sub_def js_add_def js_neg_def num_def)
  have "\<bar>(b - a) * c\<bar> = \<bar>b - a\<bar> * \<bar>c\<bar>" by (simp add: abs_mult)
  also have "\<dots> \<le> 255 * 4" using assms by (intro mult_mono) auto
  finally have bnd: "\<bar>(b - a) * c\<bar> \<le> 255 * 4" .
  have m: "js_mul (Fin (of_int (b - a))) (Fin (of_int c / 4)) = Fin (of_int ((b - a) * c) / 4)"
    using bnd fl_quarter[of "(b - a) * c"] by (simp add: js_mul_def)
  have bnd2: "\<bar>4 * a + (b - a) * c\<bar> < 2 ^ 53" using bnd assms by simp
  have s: "js_add (num a) (Fin (of_int ((b - a) * c) / 4)) = Fin (of_int (4 * a + (b - a) * c) / 4)"
    using fl_quarter[OF bnd2] by (simp add: js_add_def num_def add_divide_distrib)
  have "(of_int (4 * a + (b - a) * c) / 4 + 1 / 2 :: rat) = of_int (4 * a + (b - a) * c + 2) / of_int 4"
    by (simp add: add_divide_distrib)
  then have f: "\<lfloor>of_int (4 * a + (b - a) * c) / 4 + 1 / 2 :: rat\<rfloor> = (4 * a + (b - a) * c + 2) div 4"
    by (simp only: floor_divide_of_int_eq)
  show ?thesis
    unfolding mixChannel_def d m s by (simp only: js_round_def jsnum.case f num_def)
qed

lemma mix_between:
  fixes a b c :: int
  assumes "0 \<le> c" "c \<le> 4"
  shows "min a b \<le> (4 * a + (b - a) * c + 2) div 4 \<and> (4 * a + (b - a) * c + 2) div 4 \<le> max a b"
proof -
  define v where "v = 4 * a + (b - a) * c"
  have "c = 0 \<or> c = 1 \<or> c = 2 \<or> c = 3 \<or> c = 4" using assms by linarith
  then have lo: "4 * min a b \<le> v + 2" and hi: "v + 2 \<le> 4 * max a b + 2"
    unfolding v_def by (auto simp: min_def max_def)
  have "(4 * min a b) div 4 \<le> (v + 2) div 4" using lo by (intro zdiv_mono1) simp_all
  moreover have "(v + 2) div 4 \<le> (4 * max a b + 2) div 4" using hi by (intro zdiv_mono1) simp_all
  ultimately show ?thesis unfolding v_def by simp
qed

text \<open>Printing a channel with two hexadecimal digits and reading it back.\<close>

lemma hex_digit_table:
  "\<forall>v \<in> set [0..<16].
     \<not> isWhiteSpace (digitChar v) \<and> digitChar v \<noteq> CHR ''-'' \<and> digitChar v \<noteq> CHR ''+''
     \<and> digitChar v \<noteq> CHR ''x'' \<and> digitChar v \<noteq> CHR ''X'' \<and> charVal (digitChar v) = Some v"
  by code_simp

lemma hex_digit:
  assumes "v < 16"
  shows "\<not> isWhiteSpace (digitChar v)" "digitChar v \<noteq> CHR ''-''" "digitChar v \<noteq> CHR ''+''"
    "digitChar v \<noteq> CHR ''x''" "digitChar v \<noteq> CHR ''X''" "charVal (digitChar v) = Some v"
  using hex_digit_table assms by simp_all

lemma parseIntCore_two_digits:
  assumes "h < 16" "l < 16"
  shows "parseIntCore 16 [digitChar h, digitChar l] = Some (int (h * 16 + l))"
  using assms hex_digit[of h] hex_digit[of l]
  by (simp add: parseIntCore_def isRadixDigit_def radixValue_def Let_def)

lemma digitsOf_two:
  assumes "n < 256"
  shows "padStart2 (digitsOf 16 n) = [digitChar (n div 16), digitChar (n mod 16)]"
proof (cases "n < 16")
  case True
  have "digitChar 0 = CHR ''0''" by code_simp
  then show ?thesis using True by (simp add: digitsOf.simps[of 16 n] padStart2_def)
next
  case False
  then have "n div 16 < 16" using assms by simp
  then show ?thesis
    using False by (simp add: digitsOf.simps[of 16 n] digitsOf.simps[of 16 "n div 16"] padStart2_def)
qed

lemma pad_hex_digits:
  assumes "0 \<le> m" "m \<le> 255"
  shows "padStart2 (toString16 (num m)) = [digitChar (nat m div 16), digitChar (nat m mod 16)]"
proof -
  have "nat m < 256" using assms by simp
  then show ?thesis
    using assms digitsOf_two[of "nat m"] by (simp add: toString16_def num_def intToString_def)
qed

lemma hex_pad:
  assumes "0 \<le> m" "m \<le> 255"
  shows "hex (padStart2 (toString16 (num m))) = num m"
    and "length (padStart2 (toString16 (num m))) = 2"
proof -
  have n: "nat m div 16 < 16" using assms by simp
  have "parseIntCore 16 [digitChar (nat m div 16), digitChar (nat m mod 16)]
      = Some (int (nat m div 16 * 16 + nat m mod 16))"
    using n by (intro parseIntCore_two_digits) simp_all
  then show "hex (padStart2 (toString16 (num m))) = num m"
    using assms by (simp add: pad_hex_digits hex_def numOfParse_def)
  show "length (padStart2 (toString16 (num m))) = 2" using assms by (simp add: pad_hex_digits)
qed

lemma channels_hash:
  assumes "length p = 2" "length q = 2"
  shows "channels (CHR ''#'' # p @ q @ t) = [hex p, hex q, hex (take 2 t)]"
  using assms by (simp add: channels_def slice_def)

lemma liesBetween_num:
  "liesBetween (num a) (num m) (num b) \<longleftrightarrow> min a b \<le> m \<and> m \<le> max a b"
  by (simp add: liesBetween_def num_def min_def max_def)

lemma interpolateColor_quarters:
  assumes p: "channels p = [num a1, num a2, num a3]"
    and q: "channels q = [num b1, num b2, num b3]"
    and r: "0 \<le> a1" "a1 \<le> 255" "0 \<le> a2" "a2 \<le> 255" "0 \<le> a3" "a3 \<le> 255"
      "0 \<le> b1" "b1 \<le> 255" "0 \<le> b2" "b2 \<le> 255" "0 \<le> b3" "b3 \<le> 255"
    and c: "0 \<le> c" "c \<le> 4"
  shows "interpolateColor p q (Fin (of_int c / 4)) =
      ''#'' @ padStart2 (toString16 (num ((4 * a1 + (b1 - a1) * c + 2) div 4)))
          @ padStart2 (toString16 (num ((4 * a2 + (b2 - a2) * c + 2) div 4)))
          @ padStart2 (toString16 (num ((4 * a3 + (b3 - a3) * c + 2) div 4)))"
proof -
  have hp: "hex (slice 1 3 p) = num a1" "hex (slice 3 5 p) = num a2" "hex (slice 5 7 p) = num a3"
    using p by (simp_all add: channels_def)
  have hq: "hex (slice 1 3 q) = num b1" "hex (slice 3 5 q) = num b2" "hex (slice 5 7 q) = num b3"
    using q by (simp_all add: channels_def)
  show ?thesis
    unfolding interpolateColor_def Let_def hp hq
    using r c by (simp only: mixChannel_quarters)
qed

lemma interpolateColor_between:
  assumes p: "channels p = [num a1, num a2, num a3]"
    and q: "channels q = [num b1, num b2, num b3]"
    and r: "0 \<le> a1" "a1 \<le> 255" "0 \<le> a2" "a2 \<le> 255" "0 \<le> a3" "a3 \<le> 255"
      "0 \<le> b1" "b1 \<le> 255" "0 \<le> b2" "b2 \<le> 255" "0 \<le> b3" "b3 \<le> 255"
    and c: "0 \<le> c" "c \<le> 4"
  shows "\<forall>i < 3. liesBetween (channels p ! i)
           (channels (interpolateColor p q (Fin (of_int c / 4))) ! i) (channels q ! i)"
proof -
  define m1 where "m1 = (4 * a1 + (b1 - a1) * c + 2) div 4"
  define m2 where "m2 = (4 * a2 + (b2 - a2) * c + 2) div 4"
  define m3 where "m3 = (4 * a3 + (b3 - a3) * c + 2) div 4"
  have b1: "min a1 b1 \<le> m1 \<and> m1 \<le> max a1 b1" unfolding m1_def using c by (rule mix_between)
  have b2: "min a2 b2 \<le> m2 \<and> m2 \<le> max a2 b2" unfolding m2_def using c by (rule mix_between)
  have b3: "min a3 b3 \<le> m3 \<and> m3 \<le> max a3 b3" unfolding m3_def using c by (rule mix_between)
  have rg: "0 \<le> m1" "m1 \<le> 255" "0 \<le> m2" "m2 \<le> 255" "0 \<le> m3" "m3 \<le> 255"
    using b1 b2 b3 r by auto
  have ic: "interpolateColor p q (Fin (of_int c / 4)) =
      ''#'' @ padStart2 (toString16 (num m1)) @ padStart2 (toString16 (num m2))
          @ padStart2 (toString16 (num m3))"
    unfolding m1_def m2_def m3_def using p q r c by (rule interpolateColor_quarters)
  have ch: "channels (interpolateColor p q (Fin (of_int c / 4))) = [num m1, num m2, num m3]"
    unfolding ic using rg by (simp add: channels_hash hex_pad)
  show ?thesis
    unfolding ch p q using b1 b2 b3 by (simp add: liesBetween_num less_Suc_eq numeral_3_eq_3)
qed

lemma palette_channels:
  "channels skyfall = [num 168, num 213, num 229]
   \<and> channels dawnGlow = [num 255, num 183, num 165]
   \<and> channels violetHour = [num 201, num 167, num 235]
   \<and> channels dustyRose = [num 212, num 165, num 165]
   \<and> channels mustardPress = [num 232, num 184, num 74]
   \<and> channels seaFoam = [num 152, num 212, num 187]"
  by code_simp

lemma zone_between:
  assumes "0 \<le> r" "r \<le> 4" "0 \<le> c" "c \<le> 4"
  shows "\<forall>i < 3. liesBetween (channels (fst (ROW_COLOR_ZONES ! nat r)) ! i)
           (channels (interpolateColor (fst (ROW_COLOR_ZONES ! nat r)) (snd (ROW_COLOR_ZONES ! nat r))
              (Fin (of_int c / 4))) ! i)
           (channels (snd (ROW_COLOR_ZONES ! nat r)) ! i)"
proof -
  from palette_channels
  have sk: "channels skyfall = [num 168, num 213, num 229]"
    and dg: "channels dawnGlow = [num 255, num 183, num 165]"
    and vh: "channels violetHour = [num 201, num 167, num 235]"
    and dr: "channels dustyRose = [num 212, num 165, num 165]"
    and mp: "channels mustardPress = [num 232, num 184, num 74]"
    and sf: "channels seaFoam = [num 152, num 212, num 187]"
    by simp_all
  consider "r = 0" | "r = 1" | "r = 2" | "r = 3" | "r = 4" using assms by arith
  then show ?thesis
  proof cases
    case 1
    then have z: "ROW_COLOR_ZONES ! nat r = (skyfall, violetHour)" by (simp add: ROW_COLOR_ZONES_def)
    show ?thesis unfolding z fst_conv snd_conv
      using assms(3,4) by (intro interpolateColor_between[OF sk vh]) simp_all
  next
    case 2
    then have z: "ROW_COLOR_ZONES ! nat r = (violetHour, dustyRose)" by (simp add: ROW_COLOR_ZONES_def)
    show ?thesis unfolding z fst_conv snd_conv
      using assms(3,4) by (intro interpolateColor_between[OF vh dr]) simp_all
  next
    case 3
    then have z: "ROW_COLOR_ZONES ! nat r = (dustyRose, dawnGlow)" by (simp add: ROW_COLOR_ZONES_def)
    show ?thesis unfolding z fst_conv snd_conv
      using assms(3,4) by (intro interpolateColor_between[OF dr dg]) simp_all
  next
    case 4
    then have z: "ROW_COLOR_ZONES ! nat r = (dawnGlow, mustardPress)" by (simp add: ROW_COLOR_ZONES_def)
    show ?thesis unfolding z fst_conv snd_conv
      using assms(3,4) by (intro interpolateColor_between[OF dg mp]) simp_all
  next
    case 5
    then have z: "ROW_COLOR_ZONES ! nat r = (mustardPress, seaFoam)" by (simp add: ROW_COLOR_ZONES_def)
    show ?thesis unfolding z fst_conv snd_conv
      using assms(3,4) by (intro interpolateColor_between[OF mp sf]) simp_all
  qed
qed

lemma getPositionColor_five:
  assumes "0 \<le> r" "r \<le> 4" "0 \<le> c" "c \<le> 4"
  shows "getPositionColor r c 5 =
           Inr (interpolateColor (fst (ROW_COLOR_ZONES ! nat r)) (snd (ROW_COLOR_ZONES ! nat r))
                  (Fin (of_int c / 4)))"
  using assms colFactor_five[of c]
  by (simp add: getPositionColor_def Let_def ROW_COLOR_ZONES_def min_def)

text \<open>
  C8. \<open>getPositionColor\<close> is a function of its arguments, so equal arguments give the same
  string. For \<open>row\<close> and \<open>col\<close> from 0 to 4 and five columns it returns a colour each of
  whose three components lies between the components of the two colours of the row's zone,
  inclusive. A row index of 4 or more is clamped to the last zone.
\<close>

theorem getPositionColor_between:
  "(0 \<le> r \<and> r \<le> 4 \<and> 0 \<le> c \<and> c \<le> 4 \<longrightarrow>
      (\<exists>t. getPositionColor r c 5 = Inr t
         \<and> (\<forall>i < 3. liesBetween (channels (fst (ROW_COLOR_ZONES ! nat r)) ! i) (channels t ! i)
                        (channels (snd (ROW_COLOR_ZONES ! nat r)) ! i))))
   \<and> (4 \<le> r \<longrightarrow> getPositionColor r c n = getPositionColor 4 c n)"
proof (intro conjI impI)
  assume h: "0 \<le> r \<and> r \<le> 4 \<and> 0 \<le> c \<and> c \<le> 4"
  let ?p = "fst (ROW_COLOR_ZONES ! nat r)" and ?q = "snd (ROW_COLOR_ZONES ! nat r)"
  have g: "getPositionColor r c 5 = Inr (interpolateColor ?p ?q (Fin (of_int c / 4)))"
    using h by (intro getPositionColor_five) simp_all
  have "\<forall>i < 3. liesBetween (channels ?p ! i)
           (channels (interpolateColor ?p ?q (Fin (of_int c / 4))) ! i) (channels ?q ! i)"
    using h by (intro zone_between) simp_all
  then show "\<exists>t. getPositionColor r c 5 = Inr t
         \<and> (\<forall>i < 3. liesBetween (channels ?p ! i) (channels t ! i) (channels ?q ! i))"
    using g by blast
next
  assume "4 \<le> r"
  then show "getPositionColor r c n = getPositionColor 4 c n"
    by (simp add: getPositionColor_def Let_def ROW_COLOR_ZONES_def min_def)
qed

theorem getPositionColor_between_witness:
  "getPositionColor 0 1 5 = Inr ''#b0cae7''
   \<and> channels ''#b0cae7'' = [num 176, num 202, num 231]
   \<and> channels (fst (ROW_COLOR_ZONES ! nat 0)) = [num 168, num 213, num 229]
   \<and> channels (snd (ROW_COLOR_ZONES ! nat 0)) = [num 201, num 167, num 235]
   \<and> liesBetween (num 168) (num 176) (num 201)
   \<and> liesBetween (num 213) (num 202) (num 167)
   \<and> liesBetween (num 229) (num 231) (num 235)
   \<and> getPositionColor 7 1 5 = getPositionColor 4 1 5"
proof -
  from palette_channels
  have sk: "channels skyfall = [num 168, num 213, num 229]"
    and vh: "channels violetHour = [num 201, num 167, num 235]"
    by simp_all
  have z: "ROW_COLOR_ZONES ! 0 = (skyfall, violetHour)" by (simp add: ROW_COLOR_ZONES_def)
  have d: "[digitChar 11, digitChar 0] = ''b0'' \<and> [digitChar 12, digitChar 10] = ''ca''
           \<and> [digitChar 14, digitChar 7] = ''e7''
           \<and> channels ''#b0cae7'' = [num 176, num 202, num 231]"
    by code_simp
  have "interpolateColor skyfall violetHour (Fin (of_int 1 / 4)) =
      ''#'' @ padStart2 (toString16 (num ((4 * 168 + (201 - 168) * 1 + 2) div 4)))
          @ padStart2 (toString16 (num ((4 * 213 + (167 - 213) * 1 + 2) div 4)))
          @ padStart2 (toString16 (num ((4 * 229 + (235 - 229) * 1 + 2) div 4)))"
    by (rule interpolateColor_quarters[OF sk vh]) simp_all
  then have ic: "interpolateColor skyfall violetHour (Fin (1 / 4)) = ''#b0cae7''"
    using d by (simp add: pad_hex_digits)
  have g: "getPositionColor 0 1 5 = Inr ''#b0cae7''"
    using getPositionColor_five[of 0 1] by (simp add: z ic)
  from getPositionColor_between [of 0 1 5]
  obtain t where t: "getPositionColor 0 1 5 = Inr t"
    "\<forall>i < 3. liesBetween (channels (fst (ROW_COLOR_ZONES ! nat 0)) ! i) (channels t ! i)
                        (channels (snd (ROW_COLOR_ZONES ! nat 0)) ! i)"
    by auto
  have "t = ''#b0cae7''" using t(1) g by simp
  then have "liesBetween (num 168) (num 176) (num 201) \<and> liesBetween (num 213) (num 202) (num 167)
      \<and> liesBetween (num 229) (num 231) (num 235)"
    using t(2) d by (simp add: z sk vh less_Suc_eq numeral_3_eq_3)
  moreover have "getPositionColor 7 1 5 = getPositionColor 4 1 5"
    using getPositionColor_between [of 7 1 5] by simp
  ultimately show ?thesis using g d by (simp add: z sk vh)
qed

section \<open>The variants in useDotProps.ts\<close>

text \<open>
  The display state computed in \<open>useDotProps.ts\<close> from the grid context is the one the hook
  computes, when the context holds the hook's four fields and \<open>isMobile\<close> says whether the
  viewport is narrower than 1024.
\<close>

lemma getDotDisplayStateProps_agrees:
  assumes "ctxHoveredDot ctx = hoveredDot s" and "ctxSelectedDot ctx = selectedDot s"
    and "ctxRippleDot ctx = rippleDot s" and "ctxRandomDot ctx = randomDot s"
    and "ctxIsMobile ctx = Some (case w of None \<Rightarrow> False | Some n \<Rightarrow> n < 1024)"
  shows "getDotDisplayStateProps d ctx = getDotDisplayState w s d"
  using assms by (cases w) (auto simp: getDotDisplayStateProps_def getDotDisplayState_def Let_def)

text \<open>
  The \<open>selectedPosition\<close> of \<open>useDotProps.ts\<close> reads the row from the second-to-last
  segment only. It gives what \<open>getSelectedPosition\<close> gives unless that segment is empty,
  and then it gives no position.
\<close>

lemma selectedPosition_agrees:
  assumes "selectedDot s = Some t"
    and "2 \<le> length (js_split CHR ''-'' t) \<longrightarrow>
           js_split CHR ''-'' t ! (length (js_split CHR ''-'' t) - 2) \<noteq> []"
  shows "selectedPosition (selectedDot s) = getSelectedPosition s"
  using assms by (simp add: selectedPosition_def getSelectedPosition_def rowSegment_def Let_def)

lemma selectedPosition_empty_segment:
  assumes "2 \<le> length (js_split CHR ''-'' t)"
    and "js_split CHR ''-'' t ! (length (js_split CHR ''-'' t) - 2) = []"
  shows "selectedPosition (Some t) = None"
  using assms by (simp add: selectedPosition_def Let_def parseInt_def parseIntCore_Nil)


section \<open>Tracked timers after a click, and the sign of the cell pitch\<close>

text \<open>
  After \<open>handleDotClick\<close> the timers whose handles were in the three refs deliver nothing:
  a ripple tick, a random tick or the inactivity timeout that was pending before the click
  is a no-op.
\<close>

lemma handleDotClick_cancels_tracked:
  assumes "rippleIntervalRef s = Some h \<or> randomIntervalRef s = Some h \<or> inactivityTimer s = Some h"
  shows "fire cfg u1 u2 h (handleDotClick d k s) = Some (handleDotClick d k s)"
proof -
  have "h \<notin> fst ` set (timers (handleDotClick d k s))"
    using assms handleDotClick_state[of d k s] by auto
  then have "map_of (timers (handleDotClick d k s)) h = None"
    by (simp add: map_of_eq_None_iff)
  then show ?thesis by (rule fire_not_pending)
qed

text \<open>
  A positive representable number is at least \<open>2^-1074\<close>, and a number that large does
  not round to zero: the sum of a positive cell size and a non-negative gap is positive
  when it is finite.
\<close>

lemma rne_ge_one:
  assumes "1 \<le> v"
  shows "1 \<le> rne v"
proof -
  have "1 \<le> \<lfloor>v\<rfloor>" using assms by (simp add: le_floor_iff)
  then show ?thesis by (simp add: rne_def Let_def)
qed

lemma fl_positive:
  fixes v :: rat
  assumes "2 powi (- 1074) \<le> v" and "fl v = Fin w"
  shows "0 < w"
proof -
  have v0: "0 < v" using assms(1) by (rule less_le_trans[rotated]) simp
  define e where "e = max (ilog2 v - 52) (- 1074)"
  have "2 powi e \<le> v"
  proof (cases "ilog2 v - 52 \<le> - 1074")
    case True
    then show ?thesis using assms(1) by (simp add: e_def max_def)
  next
    case False
    then have "e = ilog2 v - 52" by (simp add: e_def)
    then have "(2::rat) powi e \<le> 2 powi (ilog2 v)" by (simp add: power_int_increasing)
    also have "\<dots> \<le> \<bar>v\<bar>" using v0 by (intro ilog2_bounds(1)) simp
    finally show ?thesis using v0 by simp
  qed
  then have "1 \<le> v / 2 powi e" by (simp add: pos_le_divide_eq)
  then have m: "1 \<le> rne (v / 2 powi e)" by (rule rne_ge_one)
  have "w = of_int (rne (v / 2 powi e)) * 2 powi e"
    using assms(2) v0 by (simp add: fl_def Let_def e_def[symmetric] split: if_splits)
  moreover have "(0::rat) < of_int (rne (v / 2 powi e))" using m by simp
  ultimately show ?thesis by simp
qed

lemma representable_positive:
  fixes v :: rat
  assumes "fl v = Fin v" and "0 < v"
  shows "2 powi (- 1074) \<le> v"
proof -
  define e where "e = max (ilog2 v - 52) (- 1074)"
  define m where "m = rne (v / 2 powi e)"
  have v: "v = of_int m * 2 powi e"
    using assms by (simp add: fl_def Let_def e_def[symmetric] m_def split: if_splits)
  have pe: "(0::rat) < 2 powi e" by simp
  have "0 < of_int m * (2::rat) powi e" using assms(2) v by simp
  then have "0 < (of_int m :: rat)"
    using pe by (simp add: zero_less_mult_iff not_less_iff_gr_or_eq del: of_int_0_less_iff)
  then have "(1::rat) \<le> of_int m" by simp
  then have "1 * 2 powi e \<le> v" unfolding v by (intro mult_right_mono) simp_all
  moreover have "(2::rat) powi (- 1074) \<le> 2 powi e" by (intro power_int_increasing) (simp_all add: e_def)
  ultimately show ?thesis by simp
qed

lemma cell_pitch_positive:
  assumes "fl cs = Fin cs" and "0 < cs" and "0 \<le> g" and "js_add (Fin cs) (Fin g) = Fin w"
  shows "0 < w"
proof -
  have "2 powi (- 1074) \<le> cs" using assms(1,2) by (rule representable_positive)
  then have "2 powi (- 1074) \<le> cs + g" using assms(3) by simp
  moreover have "fl (cs + g) = Fin w" using assms(4) by (simp add: js_add_def)
  ultimately show ?thesis by (rule fl_positive)
qed

end
